theory Spec2Isabelle
  imports Main "HOL-Library.Word" "HOL-Library.AList"
begin

unbundle bit_operations_syntax

section \<open>Bytes, slices and exceptions\<close>

text \<open>
  The module \<^verbatim>\<open>nds.py\<close> works on \<^verbatim>\<open>bytes\<close> and \<^verbatim>\<open>bytearray\<close> values, on
  Python lists and on unbounded integers. A byte is an 8-bit word, a buffer a list of
  bytes. Values that \<^verbatim>\<open>struct.unpack_from\<close> returns for the unsigned formats
  \<^verbatim>\<open>B\<close>, \<^verbatim>\<open>H\<close> and \<^verbatim>\<open>I\<close> are natural numbers; the \<^verbatim>\<open>firstID\<close> of a folder is
  whatever integer the caller stored, so it is an \<open>int\<close>.

  Every exception the modelled code can raise is a value of \<open>error\<close>; a function that
  can raise returns \<open>error + 'a\<close> with \<open>Inl\<close> for the exception.
\<close>

type_synonym byte = "8 word"
type_synonym bytes = "byte list"

datatype error =
    IndexError
  | ValueError
  | AssertionError
  | StructError
  | UnboundLocalError
  | RecursionError
  | KeyError

text \<open>
  \<^verbatim>\<open>data[a:b]\<close> for indices \<open>a\<close>, \<open>b\<close> that are not negative (every slice of the
  module has such indices: they are header fields, lengths and sums of them). The slice
  is clipped to the buffer and is empty when \<open>b \<le> a\<close>; it never raises.
\<close>

definition pyslice :: "'a list \<Rightarrow> nat \<Rightarrow> nat \<Rightarrow> 'a list" where
  "pyslice xs a b = drop a (take b xs)"

text \<open>The little-endian value of a byte string (formats \<^verbatim>\<open><H\<close> and \<^verbatim>\<open><I\<close>).\<close>

fun le_nat :: "bytes \<Rightarrow> nat" where
  "le_nat [] = 0"
| "le_nat (b # bs) = unat b + 256 * le_nat bs"

text \<open>
  \<^verbatim>\<open>struct.unpack_from(fmt, buf, off)\<close> raises \<^verbatim>\<open>struct.error\<close> unless the buffer
  holds all the bytes of the format from \<open>off\<close> on.
\<close>

definition unpack_B :: "bytes \<Rightarrow> nat \<Rightarrow> error + nat" where
  "unpack_B buf off =
     (if off + 1 \<le> length buf then Inr (le_nat (pyslice buf off (off + 1))) else Inl StructError)"

definition unpack_H :: "bytes \<Rightarrow> nat \<Rightarrow> error + nat" where
  "unpack_H buf off =
     (if off + 2 \<le> length buf then Inr (le_nat (pyslice buf off (off + 2))) else Inl StructError)"

definition unpack_I :: "bytes \<Rightarrow> nat \<Rightarrow> error + nat" where
  "unpack_I buf off =
     (if off + 4 \<le> length buf then Inr (le_nat (pyslice buf off (off + 4))) else Inl StructError)"

definition unpack_IH :: "bytes \<Rightarrow> nat \<Rightarrow> error + (nat \<times> nat)" where
  "unpack_IH buf off =
     (if off + 6 \<le> length buf
      then Inr (le_nat (pyslice buf off (off + 4)), le_nat (pyslice buf (off + 4) (off + 6)))
      else Inl StructError)"

definition unpack_II :: "bytes \<Rightarrow> nat \<Rightarrow> error + (nat \<times> nat)" where
  "unpack_II buf off =
     (if off + 8 \<le> length buf
      then Inr (le_nat (pyslice buf off (off + 4)), le_nat (pyslice buf (off + 4) (off + 8)))
      else Inl StructError)"

text \<open>
  \<^verbatim>\<open>xs[i]\<close> and \<^verbatim>\<open>xs[i] = v\<close> on a Python list with an integer index: a negative
  index counts from the end, an index out of range raises \<^verbatim>\<open>IndexError\<close>.
\<close>

definition py_index :: "'a list \<Rightarrow> int \<Rightarrow> error + nat" where
  "py_index xs i =
     (if 0 \<le> i \<and> i < int (length xs) then Inr (nat i)
      else if i < 0 \<and> - int (length xs) \<le> i then Inr (nat (int (length xs) + i))
      else Inl IndexError)"

definition getitem :: "'a list \<Rightarrow> int \<Rightarrow> error + 'a" where
  "getitem xs i = (case py_index xs i of Inl e \<Rightarrow> Inl e | Inr j \<Rightarrow> Inr (xs ! j))"

definition setitem :: "'a list \<Rightarrow> int \<Rightarrow> 'a \<Rightarrow> error + 'a list" where
  "setitem xs i v = (case py_index xs i of Inl e \<Rightarrow> Inl e | Inr j \<Rightarrow> Inr (xs[j := v]))"

section \<open>The filename tree\<close>

text \<open>
  \<^verbatim>\<open>class Folder\<close>: the subfolders as (name, folder) pairs in order, the file names
  in order, and the ID of the first file. \<^verbatim>\<open>Folder()\<close> is \<open>Folder [] [] 0\<close>.
  A name is a string of one-byte characters, which is what the filename table stores
  (\<^verbatim>\<open>latin-1\<close>).
\<close>

datatype Folder = Folder (folders: "(string \<times> Folder) list") (files: "string list") (firstID: int)

subsection \<open>Path lookup\<close>

text \<open>\<^verbatim>\<open>path.split('/')\<close>: the pieces between separators, at least one piece.\<close>

fun split_on :: "char \<Rightarrow> string \<Rightarrow> string list" where
  "split_on sep [] = [[]]"
| "split_on sep (c # cs) =
     (if c = sep then [] # split_on sep cs
      else (c # hd (split_on sep cs)) # tl (split_on sep cs))"

text \<open>
  \<^verbatim>\<open>while not pathList[-1]: pathList = pathList[:-1]\<close>. Reading \<^verbatim>\<open>pathList[-1]\<close>
  of an empty list raises \<^verbatim>\<open>IndexError\<close>.
\<close>

function strip_trailing :: "string list \<Rightarrow> error + string list" where
  "strip_trailing pathList =
     (if pathList = [] then Inl IndexError
      else if last pathList = [] then strip_trailing (butlast pathList)
      else Inr pathList)"
  by pat_completeness auto
termination
  by (relation "measure length") auto

text \<open>\<^verbatim>\<open>while not pathList[0]: pathList = pathList[1:]\<close>.\<close>

fun strip_leading :: "string list \<Rightarrow> error + string list" where
  "strip_leading [] = Inl IndexError"
| "strip_leading (p # ps) = (if p = [] then strip_leading ps else Inr (p # ps))"

text \<open>\<^verbatim>\<open>xs.index(x)\<close>: the first position of \<open>x\<close>, \<^verbatim>\<open>ValueError\<close> when absent.\<close>

fun list_index :: "'a list \<Rightarrow> 'a \<Rightarrow> error + nat" where
  "list_index [] x = Inl ValueError"
| "list_index (y # ys) x =
     (if y = x then Inr 0
      else (case list_index ys x of Inl e \<Rightarrow> Inl e | Inr i \<Rightarrow> Inr (Suc i)))"

text \<open>
  The inner \<^verbatim>\<open>findInFolder\<close> of \<^verbatim>\<open>Folder.idOf\<close>. The \<^verbatim>\<open>for\<close> loop over the
  subfolders returns at the first pair whose name matches, which is \<open>map_of\<close>.
  The result is \<open>None\<close> for Python's \<^verbatim>\<open>None\<close>.
\<close>

fun idOf_findInFolder :: "string list \<Rightarrow> Folder \<Rightarrow> error + int option" where
  "idOf_findInFolder [] searchFolder = Inl IndexError"
| "idOf_findInFolder [pathPart] searchFolder =
     (if pathPart \<in> set (files searchFolder)
      then (case list_index (files searchFolder) pathPart of
              Inl e \<Rightarrow> Inl e
            | Inr i \<Rightarrow> Inr (Some (firstID searchFolder + int i)))
      else Inr None)"
| "idOf_findInFolder (pathPart # rest) searchFolder =
     (case map_of (folders searchFolder) pathPart of
        Some subfolder \<Rightarrow> idOf_findInFolder rest subfolder
      | None \<Rightarrow> Inr None)"

definition idOf :: "Folder \<Rightarrow> string \<Rightarrow> error + int option" where
  "idOf self path =
     (case strip_trailing (split_on CHR ''/'' path) of
        Inl e \<Rightarrow> Inl e
      | Inr pathList \<Rightarrow>
          (case strip_leading pathList of
             Inl e \<Rightarrow> Inl e
           | Inr pathList' \<Rightarrow> idOf_findInFolder pathList' self))"

text \<open>The inner \<^verbatim>\<open>findInFolder\<close> of \<^verbatim>\<open>Folder.subfolder\<close>.\<close>

fun subfolder_findInFolder :: "string list \<Rightarrow> Folder \<Rightarrow> error + Folder option" where
  "subfolder_findInFolder [] searchFolder = Inl IndexError"
| "subfolder_findInFolder (pathPart # rest) searchFolder =
     (case map_of (folders searchFolder) pathPart of
        Some subfolder \<Rightarrow>
          (if rest = [] then Inr (Some subfolder) else subfolder_findInFolder rest subfolder)
      | None \<Rightarrow> Inr None)"

definition subfolder :: "Folder \<Rightarrow> string \<Rightarrow> error + Folder option" where
  "subfolder self path =
     (case strip_trailing (split_on CHR ''/'' path) of
        Inl e \<Rightarrow> Inl e
      | Inr pathList \<Rightarrow>
          (case strip_leading pathList of
             Inl e \<Rightarrow> Inl e
           | Inr pathList' \<Rightarrow> subfolder_findInFolder pathList' self))"

subsection \<open>Decoding a filename table\<close>

text \<open>\<^verbatim>\<open>bytes.decode('latin-1')\<close> and \<^verbatim>\<open>str.encode('latin-1')\<close>: one byte per character.\<close>

definition decode_latin1 :: "bytes \<Rightarrow> string" where
  "decode_latin1 bs = map (\<lambda>b. char_of (unat b)) bs"

definition encode_latin1 :: "string \<Rightarrow> bytes" where
  "encode_latin1 s = map (\<lambda>c. of_nat (of_char c)) s"

text \<open>
  \<^verbatim>\<open>load(fnt)\<close> and its inner \<^verbatim>\<open>loadFolder(folderId)\<close>. The \<^verbatim>\<open>while True\<close> loop
  over the entries table is \<open>loadEntries\<close>, with the current offset and the folder
  object built so far. The loop ends at a zero control byte or with the
  \<^verbatim>\<open>struct.error\<close> of a read at the end of the buffer.

  \<^verbatim>\<open>loadFolder\<close> calls itself for every subfolder entry, and nothing in the table
  keeps a subfolder ID from naming an ancestor. Python bounds the depth of nested calls
  and raises \<^verbatim>\<open>RecursionError\<close> beyond it; the first argument is the number of
  nested \<^verbatim>\<open>loadFolder\<close> calls the interpreter still allows.
\<close>

function loadFolder :: "nat \<Rightarrow> bytes \<Rightarrow> nat \<Rightarrow> error + Folder"
  and loadEntries :: "nat \<Rightarrow> bytes \<Rightarrow> nat \<Rightarrow> Folder \<Rightarrow> error + Folder" where
  "loadFolder 0 fnt folderId = Inl RecursionError"
| "loadFolder (Suc depth) fnt folderId =
     (case unpack_IH fnt (8 * (folderId AND 0xFFF)) of
        Inl e \<Rightarrow> Inl e
      | Inr (entriesTableOff, fileID) \<Rightarrow>
          loadEntries depth fnt entriesTableOff (Folder [] [] (int fileID)))"
| "loadEntries depth fnt off folderObj =
     (case unpack_B fnt off of
        Inl e \<Rightarrow> Inl e
      | Inr control \<Rightarrow>
          if control = 0 then Inr folderObj
          else
            let nameLen = control AND 0x7F;
                isFolder = control AND 0x80;
                name = decode_latin1 (pyslice fnt (off + 1) (off + 1 + nameLen));
                off' = off + 1 + nameLen
            in if isFolder \<noteq> 0
               then (case unpack_H fnt off' of
                       Inl e \<Rightarrow> Inl e
                     | Inr subFolderID \<Rightarrow>
                         (case loadFolder depth fnt subFolderID of
                            Inl e \<Rightarrow> Inl e
                          | Inr sub \<Rightarrow>
                              loadEntries depth fnt (off' + 2)
                                (Folder (folders folderObj @ [(name, sub)]) (files folderObj)
                                   (firstID folderObj))))
               else loadEntries depth fnt off'
                      (Folder (folders folderObj) (files folderObj @ [name]) (firstID folderObj)))"
  by pat_completeness auto
termination
  by (relation "inv_image (less_than <*lex*> less_than <*lex*> less_than)
        (\<lambda>x. case x of
               Inl (depth, fnt, folderId) \<Rightarrow> (depth, 0::nat, 0::nat)
             | Inr (depth, fnt, off, folderObj) \<Rightarrow> (depth, 1, length fnt - off))")
     (auto simp: unpack_B_def split: if_splits)

text \<open>The root folder is always \<^verbatim>\<open>0xF000\<close>.\<close>

definition load :: "nat \<Rightarrow> bytes \<Rightarrow> error + Folder" where
  "load depth fnt = loadFolder depth fnt 0xF000"

subsection \<open>Encoding a filename table\<close>

text \<open>The bytes \<^verbatim>\<open>struct.pack\<close> writes for an unsigned value, low byte first.\<close>

fun le_bytes :: "nat \<Rightarrow> nat \<Rightarrow> bytes" where
  "le_bytes 0 v = []"
| "le_bytes (Suc n) v = of_nat (v mod 256) # le_bytes n (v div 256)"

text \<open>
  \<^verbatim>\<open>struct.pack('<H', v)\<close> raises \<^verbatim>\<open>struct.error\<close> for a value outside
  \<open>0 .. 0xFFFF\<close>. \<^verbatim>\<open>struct.pack_into('<IHH', buf, off, a, b, c)\<close> overwrites eight
  bytes of the buffer at \<open>off\<close> and raises when the buffer has no room there or a value
  does not fit its format.
\<close>

definition pack_H :: "int \<Rightarrow> error + bytes" where
  "pack_H v = (if 0 \<le> v \<and> v < 2 ^ 16 then Inr (le_bytes 2 (nat v)) else Inl StructError)"

definition pack_into_IHH :: "bytes \<Rightarrow> nat \<Rightarrow> int \<Rightarrow> int \<Rightarrow> int \<Rightarrow> error + bytes" where
  "pack_into_IHH buf off a b c =
     (if off + 8 \<le> length buf \<and> 0 \<le> a \<and> a < 2 ^ 32 \<and> 0 \<le> b \<and> b < 2 ^ 16 \<and> 0 \<le> c \<and> c < 2 ^ 16
      then Inr (take off buf @ le_bytes 4 (nat a) @ le_bytes 2 (nat b) @ le_bytes 2 (nat c)
                @ drop (off + 8) buf)
      else Inl StructError)"

text \<open>
  The dictionary \<^verbatim>\<open>folderEntries\<close> of \<^verbatim>\<open>save\<close>:
  \<^verbatim>\<open>folderID: (initialFileID, parentFolderID, entries data)\<close>, in insertion order.
\<close>

type_synonym folderEntries = "(int \<times> (int \<times> int \<times> bytes)) list"

text \<open>
  Reading a local variable of a Python function. A name that the function body assigns
  anywhere is local to the function unless it is declared \<^verbatim>\<open>nonlocal\<close> or
  \<^verbatim>\<open>global\<close>; it has no value until the first assignment of the call runs, and reading
  it before that raises \<^verbatim>\<open>UnboundLocalError\<close>. \<open>None\<close> is the slot without a value.
\<close>

definition load_local :: "'a option \<Rightarrow> error + 'a" where
  "load_local slot = (case slot of None \<Rightarrow> Inl UnboundLocalError | Some v \<Rightarrow> Inr v)"

text \<open>The loop \<^verbatim>\<open>for file in d.files\<close> of \<^verbatim>\<open>parseFolder\<close>.\<close>

fun fileEntries :: "string list \<Rightarrow> bytes \<Rightarrow> error + bytes" where
  "fileEntries [] entriesTable = Inr entriesTable"
| "fileEntries (file # rest) entriesTable =
     (if length file > 127 then Inl ValueError
      else fileEntries rest
             (entriesTable @ [of_nat (length file)] @ encode_latin1 file))"

text \<open>
  The inner \<^verbatim>\<open>parseFolder(d, parentID)\<close> of \<^verbatim>\<open>save\<close>, with the dictionary
  \<^verbatim>\<open>folderEntries\<close> of the enclosing call passed in and returned; \<open>parseSubfolders\<close>
  is its loop \<^verbatim>\<open>for folderName, folder in d.folders\<close>.

  The body of \<^verbatim>\<open>parseFolder\<close> starts
  \<^verbatim>\<open>folderID = nextFolderID\<close>, \<^verbatim>\<open>nextFolderID += 1\<close>
  and has no \<^verbatim>\<open>nonlocal nextFolderID\<close>. The second statement assigns the name, so
  \<^verbatim>\<open>nextFolderID\<close> is a local variable of \<^verbatim>\<open>parseFolder\<close>, distinct from the
  variable of the same name that \<^verbatim>\<open>save\<close> sets to \<^verbatim>\<open>0xF000\<close>, and every call of
  \<^verbatim>\<open>parseFolder\<close> starts with that local slot empty. The first statement reads it.
\<close>

function parseFolder :: "Folder \<Rightarrow> int \<Rightarrow> folderEntries \<Rightarrow> error + (int \<times> folderEntries)"
  and parseSubfolders ::
    "(string \<times> Folder) list \<Rightarrow> int \<Rightarrow> bytes \<Rightarrow> folderEntries \<Rightarrow> error + (bytes \<times> folderEntries)"
  where
  "parseFolder d parentID folderEntries =
     (let nextFolderID = (None :: int option) in
      case load_local nextFolderID of
        Inl e \<Rightarrow> Inl e
      | Inr folderID \<Rightarrow>
          (let nextFolderID = Some (folderID + 1) in
           case fileEntries (files d) [] of
             Inl e \<Rightarrow> Inl e
           | Inr entriesTable \<Rightarrow>
               (case parseSubfolders (folders d) folderID entriesTable folderEntries of
                  Inl e \<Rightarrow> Inl e
                | Inr (entriesTable', folderEntries') \<Rightarrow>
                    Inr (folderID,
                         AList.update folderID (firstID d, parentID, entriesTable' @ [0])
                           folderEntries'))))"
| "parseSubfolders [] folderID entriesTable folderEntries = Inr (entriesTable, folderEntries)"
| "parseSubfolders ((folderName, folder) # rest) folderID entriesTable folderEntries =
     (case parseFolder folder folderID folderEntries of
        Inl e \<Rightarrow> Inl e
      | Inr (otherID, folderEntries') \<Rightarrow>
          if length folderName > 127 then Inl ValueError
          else (case pack_H otherID of
                  Inl e \<Rightarrow> Inl e
                | Inr packed \<Rightarrow>
                    parseSubfolders rest folderID
                      (entriesTable @ [of_nat (length folderName) OR 0x80]
                         @ encode_latin1 folderName @ packed)
                      folderEntries'))"
  by pat_completeness auto
termination
  by (relation "measure (\<lambda>x. case x of
          Inl (d, parentID, folderEntries) \<Rightarrow> 2 * size d
        | Inr (fs, folderID, entriesTable, folderEntries) \<Rightarrow>
            2 * size_list (size_prod (\<lambda>_. 0) size) fs + 1)")
     (auto simp: load_local_def)

text \<open>The inner \<^verbatim>\<open>countFoldersIn(folder)\<close> of \<^verbatim>\<open>save\<close>.\<close>

fun countFoldersIn :: "Folder \<Rightarrow> int" where
  "countFoldersIn (Folder fs fl fid) =
     foldl (\<lambda>folderCount p. folderCount + countFoldersIn (snd p)) 0 fs + 1"

text \<open>
  The loop \<^verbatim>\<open>for currentFolderID in sorted(folderEntries.keys())\<close>: each folder's table
  slot is written in place and its entries table is appended.
\<close>

fun writeFolders :: "int list \<Rightarrow> folderEntries \<Rightarrow> bytes \<Rightarrow> error + bytes" where
  "writeFolders [] folderEntries fnt = Inr fnt"
| "writeFolders (currentFolderID # ids) folderEntries fnt =
     (case map_of folderEntries currentFolderID of
        None \<Rightarrow> Inl KeyError
      | Some (fileID, parentID, entriesTable) \<Rightarrow>
          (case pack_into_IHH fnt (8 * nat (currentFolderID AND 0xFFF))
                  (int (length fnt)) fileID parentID of
             Inl e \<Rightarrow> Inl e
           | Inr fnt' \<Rightarrow> writeFolders ids folderEntries (fnt' @ entriesTable)))"

definition save :: "Folder \<Rightarrow> error + bytes" where
  "save root =
     (let folderEntries = [];
          nextFolderID = (0xF000 :: int);
          rootParentId = countFoldersIn root
      in case parseFolder root rootParentId folderEntries of
           Inl e \<Rightarrow> Inl e
         | Inr (rootId, folderEntries') \<Rightarrow>
             if rootId \<noteq> 0xF000 then Inl AssertionError
             else writeFolders (sort (map fst folderEntries')) folderEntries'
                    (replicate (length folderEntries' * 8) 0))"

section \<open>The ROM container\<close>

subsection \<open>The header cursor\<close>

text \<open>
  The inner functions \<^verbatim>\<open>readRaw\<close>, \<^verbatim>\<open>read8\<close>, \<^verbatim>\<open>read16\<close> and \<^verbatim>\<open>read32\<close> of
  \<^verbatim>\<open>_initFromData\<close> read at \<^verbatim>\<open>self.headerOffset\<close> and advance it. A reader takes the
  offset and returns the value read with the new offset, or the exception:
  \<^verbatim>\<open>data[off]\<close> raises \<^verbatim>\<open>IndexError\<close> at the end of the buffer, \<^verbatim>\<open>unpack_from\<close> raises
  \<^verbatim>\<open>struct.error\<close>, a slice never raises. \<open>assertOffset\<close> is one of the
  \<^verbatim>\<open>assert self.headerOffset == ...\<close> statements.
\<close>

type_synonym 'a reader = "nat \<Rightarrow> error + ('a \<times> nat)"

definition rreturn :: "'a \<Rightarrow> 'a reader" where
  "rreturn v = (\<lambda>off. Inr (v, off))"

definition rbind :: "'a reader \<Rightarrow> ('a \<Rightarrow> 'b reader) \<Rightarrow> 'b reader" where
  "rbind m f = (\<lambda>off. case m off of Inl e \<Rightarrow> Inl e | Inr (v, off') \<Rightarrow> f v off')"

definition readRaw :: "bytes \<Rightarrow> nat \<Rightarrow> bytes reader" where
  "readRaw data len = (\<lambda>off. Inr (pyslice data off (off + len), off + len))"

definition read8 :: "bytes \<Rightarrow> nat reader" where
  "read8 data = (\<lambda>off. if off < length data then Inr (unat (data ! off), off + 1) else Inl IndexError)"

definition read16 :: "bytes \<Rightarrow> nat reader" where
  "read16 data = (\<lambda>off. case unpack_H data off of Inl e \<Rightarrow> Inl e | Inr v \<Rightarrow> Inr (v, off + 2))"

definition read32 :: "bytes \<Rightarrow> nat reader" where
  "read32 data = (\<lambda>off. case unpack_I data off of Inl e \<Rightarrow> Inl e | Inr v \<Rightarrow> Inr (v, off + 4))"

definition assertOffset :: "nat \<Rightarrow> unit reader" where
  "assertOffset expected = (\<lambda>off. if off = expected then Inr ((), off) else Inl AssertionError)"

text \<open>\<^verbatim>\<open>bs.rstrip(b'\0')\<close>: the bytes without their trailing zero bytes.\<close>

definition rstrip_zero :: "bytes \<Rightarrow> bytes" where
  "rstrip_zero bs = rev (dropWhile (\<lambda>b. b = 0) (rev bs))"

subsection \<open>The header fields\<close>

text \<open>
  The header values that \<^verbatim>\<open>_initFromData\<close> stores as attributes of the ROM object
  (\<open>HeaderFields\<close>), and those it keeps in local variables only (\<open>HeaderLocals\<close>).
\<close>

record HeaderFields =
  name :: bytes
  idCode :: bytes
  developerCode :: bytes
  unitCode :: nat
  encryptionSeedSelect :: nat
  deviceCapacity :: nat
  pad015 :: nat
  pad016 :: nat
  pad017 :: nat
  pad018 :: nat
  pad019 :: nat
  pad01A :: nat
  pad01B :: nat
  pad01C :: nat
  region :: nat
  version :: nat
  autostart :: nat
  arm9Offset :: nat
  arm9EntryAddress :: nat
  arm9RamAddress :: nat
  arm9Len :: nat
  arm7Offset :: nat
  arm7EntryAddress :: nat
  arm7RamAddress :: nat
  arm7Len :: nat
  normalCardControlRegisterSettings :: nat
  secureCardControlRegisterSettings :: nat
  secureAreaChecksum :: nat
  secureTransferDelay :: nat
  arm9CodeSettingsPointerAddress :: nat
  arm7CodeSettingsPointerAddress :: nat
  secureAreaDisable :: bytes
  romSizeOrRsaSigOffset :: nat
  pad088 :: bytes
  nintendoLogo :: bytes
  debugRomAddress :: nat
  pad16C :: bytes

record HeaderLocals =
  fntOffset :: nat
  fntLen :: nat
  fatOffset :: nat
  fatLen :: nat
  arm9OvTOffset :: nat
  arm9OvTLen :: nat
  arm7OvTOffset :: nat
  arm7OvTLen :: nat
  iconBannerOffset :: nat
  headerSize :: nat
  nintendoLogoChecksum :: nat
  headerChecksum :: nat
  debugRomOffset :: nat
  debugRomSize :: nat

text \<open>
  The header reads of \<^verbatim>\<open>_initFromData\<close>, in the order of the source, from
  \<^verbatim>\<open>self.name = readRaw(12).rstrip(b'\0')\<close> to the assertion at \<^verbatim>\<open>0x200\<close>.
  Each block starts at one of the assertions on \<^verbatim>\<open>self.headerOffset\<close> and returns the
  values it read.
\<close>

definition readHeader00 ::
  "bytes \<Rightarrow> (bytes \<times> bytes \<times> bytes \<times> nat \<times> nat \<times> nat) reader" where
  "readHeader00 data =
     rbind (assertOffset 0x0) (\<lambda>_.
     rbind (readRaw data 0xC) (\<lambda>v_name.
     rbind (readRaw data 0x4) (\<lambda>v_idCode.
     rbind (readRaw data 0x2) (\<lambda>v_developerCode.
     rbind (read8 data) (\<lambda>v_unitCode.
     rbind (read8 data) (\<lambda>v_encryptionSeedSelect.
     rbind (read8 data) (\<lambda>v_deviceCapacity.
     rreturn (rstrip_zero v_name, v_idCode, v_developerCode, v_unitCode, v_encryptionSeedSelect, v_deviceCapacity))))))))"

definition readHeader15 ::
  "bytes \<Rightarrow> (nat \<times> nat \<times> nat \<times> nat \<times> nat \<times> nat \<times> nat \<times> nat \<times> nat \<times> nat \<times> nat) reader" where
  "readHeader15 data =
     rbind (assertOffset 0x15) (\<lambda>_.
     rbind (read8 data) (\<lambda>v_pad015.
     rbind (read8 data) (\<lambda>v_pad016.
     rbind (read8 data) (\<lambda>v_pad017.
     rbind (read8 data) (\<lambda>v_pad018.
     rbind (read8 data) (\<lambda>v_pad019.
     rbind (read8 data) (\<lambda>v_pad01A.
     rbind (read8 data) (\<lambda>v_pad01B.
     rbind (read8 data) (\<lambda>v_pad01C.
     rbind (read8 data) (\<lambda>v_region.
     rbind (read8 data) (\<lambda>v_version.
     rbind (read8 data) (\<lambda>v_autostart.
     rreturn (v_pad015, v_pad016, v_pad017, v_pad018, v_pad019, v_pad01A, v_pad01B, v_pad01C, v_region, v_version, v_autostart)))))))))))))"

definition readHeader20 ::
  "bytes \<Rightarrow> (nat \<times> nat \<times> nat \<times> nat \<times> nat \<times> nat \<times> nat \<times> nat) reader" where
  "readHeader20 data =
     rbind (assertOffset 0x20) (\<lambda>_.
     rbind (read32 data) (\<lambda>v_arm9Offset.
     rbind (read32 data) (\<lambda>v_arm9EntryAddress.
     rbind (read32 data) (\<lambda>v_arm9RamAddress.
     rbind (read32 data) (\<lambda>v_arm9Len.
     rbind (read32 data) (\<lambda>v_arm7Offset.
     rbind (read32 data) (\<lambda>v_arm7EntryAddress.
     rbind (read32 data) (\<lambda>v_arm7RamAddress.
     rbind (read32 data) (\<lambda>v_arm7Len.
     rreturn (v_arm9Offset, v_arm9EntryAddress, v_arm9RamAddress, v_arm9Len, v_arm7Offset, v_arm7EntryAddress, v_arm7RamAddress, v_arm7Len))))))))))"

definition readHeader40 ::
  "bytes \<Rightarrow> (nat \<times> nat \<times> nat \<times> nat \<times> nat \<times> nat \<times> nat \<times> nat) reader" where
  "readHeader40 data =
     rbind (assertOffset 0x40) (\<lambda>_.
     rbind (read32 data) (\<lambda>v_fntOffset.
     rbind (read32 data) (\<lambda>v_fntLen.
     rbind (read32 data) (\<lambda>v_fatOffset.
     rbind (read32 data) (\<lambda>v_fatLen.
     rbind (read32 data) (\<lambda>v_arm9OvTOffset.
     rbind (read32 data) (\<lambda>v_arm9OvTLen.
     rbind (read32 data) (\<lambda>v_arm7OvTOffset.
     rbind (read32 data) (\<lambda>v_arm7OvTLen.
     rreturn (v_fntOffset, v_fntLen, v_fatOffset, v_fatLen, v_arm9OvTOffset, v_arm9OvTLen, v_arm7OvTOffset, v_arm7OvTLen))))))))))"

definition readHeader60 ::
  "bytes \<Rightarrow> (nat \<times> nat \<times> nat \<times> nat \<times> nat) reader" where
  "readHeader60 data =
     rbind (assertOffset 0x60) (\<lambda>_.
     rbind (read32 data) (\<lambda>v_normalCardControlRegisterSettings.
     rbind (read32 data) (\<lambda>v_secureCardControlRegisterSettings.
     rbind (read32 data) (\<lambda>v_iconBannerOffset.
     rbind (read16 data) (\<lambda>v_secureAreaChecksum.
     rbind (read16 data) (\<lambda>v_secureTransferDelay.
     rreturn (v_normalCardControlRegisterSettings, v_secureCardControlRegisterSettings, v_iconBannerOffset, v_secureAreaChecksum, v_secureTransferDelay)))))))"

definition readHeader70 ::
  "bytes \<Rightarrow> (nat \<times> nat \<times> bytes) reader" where
  "readHeader70 data =
     rbind (assertOffset 0x70) (\<lambda>_.
     rbind (read32 data) (\<lambda>v_arm9CodeSettingsPointerAddress.
     rbind (read32 data) (\<lambda>v_arm7CodeSettingsPointerAddress.
     rbind (readRaw data 0x8) (\<lambda>v_secureAreaDisable.
     rreturn (v_arm9CodeSettingsPointerAddress, v_arm7CodeSettingsPointerAddress, v_secureAreaDisable)))))"

definition readHeader80 ::
  "bytes \<Rightarrow> (nat \<times> nat \<times> bytes \<times> bytes \<times> nat \<times> nat) reader" where
  "readHeader80 data =
     rbind (assertOffset 0x80) (\<lambda>_.
     rbind (read32 data) (\<lambda>v_romSizeOrRsaSigOffset.
     rbind (read32 data) (\<lambda>v_headerSize.
     rbind (readRaw data 0x38) (\<lambda>v_pad088.
     rbind (readRaw data 0x9C) (\<lambda>v_nintendoLogo.
     rbind (read16 data) (\<lambda>v_nintendoLogoChecksum.
     rbind (read16 data) (\<lambda>v_headerChecksum.
     rreturn (v_romSizeOrRsaSigOffset, v_headerSize, v_pad088, v_nintendoLogo, v_nintendoLogoChecksum, v_headerChecksum))))))))"

definition readHeader160 ::
  "bytes \<Rightarrow> (nat \<times> nat \<times> nat \<times> bytes) reader" where
  "readHeader160 data =
     rbind (assertOffset 0x160) (\<lambda>_.
     rbind (read32 data) (\<lambda>v_debugRomOffset.
     rbind (read32 data) (\<lambda>v_debugRomSize.
     rbind (read32 data) (\<lambda>v_debugRomAddress.
     rbind (readRaw data 0x94) (\<lambda>v_pad16C.
     rbind (assertOffset 0x200) (\<lambda>_.
     rreturn (v_debugRomOffset, v_debugRomSize, v_debugRomAddress, v_pad16C)))))))"

text \<open>The eight blocks in sequence, and the values as the two records.\<close>

definition readHeader :: "bytes \<Rightarrow> (HeaderFields \<times> HeaderLocals) reader" where
  "readHeader data =
     rbind (readHeader00 data) (\<lambda>(v_name, v_idCode, v_developerCode, v_unitCode, v_encryptionSeedSelect, v_deviceCapacity).
     rbind (readHeader15 data) (\<lambda>(v_pad015, v_pad016, v_pad017, v_pad018, v_pad019, v_pad01A, v_pad01B, v_pad01C, v_region, v_version, v_autostart).
     rbind (readHeader20 data) (\<lambda>(v_arm9Offset, v_arm9EntryAddress, v_arm9RamAddress, v_arm9Len, v_arm7Offset, v_arm7EntryAddress, v_arm7RamAddress, v_arm7Len).
     rbind (readHeader40 data) (\<lambda>(v_fntOffset, v_fntLen, v_fatOffset, v_fatLen, v_arm9OvTOffset, v_arm9OvTLen, v_arm7OvTOffset, v_arm7OvTLen).
     rbind (readHeader60 data) (\<lambda>(v_normalCardControlRegisterSettings, v_secureCardControlRegisterSettings, v_iconBannerOffset, v_secureAreaChecksum, v_secureTransferDelay).
     rbind (readHeader70 data) (\<lambda>(v_arm9CodeSettingsPointerAddress, v_arm7CodeSettingsPointerAddress, v_secureAreaDisable).
     rbind (readHeader80 data) (\<lambda>(v_romSizeOrRsaSigOffset, v_headerSize, v_pad088, v_nintendoLogo, v_nintendoLogoChecksum, v_headerChecksum).
     rbind (readHeader160 data) (\<lambda>(v_debugRomOffset, v_debugRomSize, v_debugRomAddress, v_pad16C).
     rreturn
       (\<lparr>name = v_name,
          idCode = v_idCode,
          developerCode = v_developerCode,
          unitCode = v_unitCode,
          encryptionSeedSelect = v_encryptionSeedSelect,
          deviceCapacity = v_deviceCapacity,
          pad015 = v_pad015,
          pad016 = v_pad016,
          pad017 = v_pad017,
          pad018 = v_pad018,
          pad019 = v_pad019,
          pad01A = v_pad01A,
          pad01B = v_pad01B,
          pad01C = v_pad01C,
          region = v_region,
          version = v_version,
          autostart = v_autostart,
          arm9Offset = v_arm9Offset,
          arm9EntryAddress = v_arm9EntryAddress,
          arm9RamAddress = v_arm9RamAddress,
          arm9Len = v_arm9Len,
          arm7Offset = v_arm7Offset,
          arm7EntryAddress = v_arm7EntryAddress,
          arm7RamAddress = v_arm7RamAddress,
          arm7Len = v_arm7Len,
          normalCardControlRegisterSettings = v_normalCardControlRegisterSettings,
          secureCardControlRegisterSettings = v_secureCardControlRegisterSettings,
          secureAreaChecksum = v_secureAreaChecksum,
          secureTransferDelay = v_secureTransferDelay,
          arm9CodeSettingsPointerAddress = v_arm9CodeSettingsPointerAddress,
          arm7CodeSettingsPointerAddress = v_arm7CodeSettingsPointerAddress,
          secureAreaDisable = v_secureAreaDisable,
          romSizeOrRsaSigOffset = v_romSizeOrRsaSigOffset,
          pad088 = v_pad088,
          nintendoLogo = v_nintendoLogo,
          debugRomAddress = v_debugRomAddress,
          pad16C = v_pad16C\<rparr>,
        \<lparr>fntOffset = v_fntOffset,
          fntLen = v_fntLen,
          fatOffset = v_fatOffset,
          fatLen = v_fatLen,
          arm9OvTOffset = v_arm9OvTOffset,
          arm9OvTLen = v_arm9OvTLen,
          arm7OvTOffset = v_arm7OvTOffset,
          arm7OvTLen = v_arm7OvTLen,
          iconBannerOffset = v_iconBannerOffset,
          headerSize = v_headerSize,
          nintendoLogoChecksum = v_nintendoLogoChecksum,
          headerChecksum = v_headerChecksum,
          debugRomOffset = v_debugRomOffset,
          debugRomSize = v_debugRomSize\<rparr>)))))))))"

subsection \<open>Decoding a ROM\<close>

text \<open>
  \<^verbatim>\<open>class NintendoDSRom\<close>: the header attributes and the regions, the filename tree
  and the files. The attribute \<^verbatim>\<open>files\<close> is \<open>rom_files\<close> here, since \<open>files\<close> is
  the file list of a \<open>Folder\<close>.
\<close>

record NintendoDSRom = HeaderFields +
  headerOffset :: nat
  pad200 :: bytes
  rsaSignature :: bytes
  arm9 :: bytes
  arm7 :: bytes
  arm9OverlayTable :: bytes
  arm7OverlayTable :: bytes
  iconBanner :: bytes
  debugRom :: bytes
  arm9PostData :: bytes
  filenames :: Folder
  rom_files :: "bytes list"
  sortedFileIds :: "nat list"

definition ICON_BANNER_LEN :: nat where
  "ICON_BANNER_LEN = 0x840"

text \<open>
  The start of \<^verbatim>\<open>_initFromData\<close>: a buffer shorter than \<^verbatim>\<open>0x200\<close> bytes is extended
  with zero bytes, and the new length is asserted.
\<close>

definition extendData :: "bytes \<Rightarrow> error + bytes" where
  "extendData data =
     (if length data < 0x200
      then (let data' = data @ replicate (0x200 - length data) 0
            in if length data' = 0x200 then Inr data' else Inl AssertionError)
      else Inr data)"

text \<open>
  The loop that collects the records after the ARM9 region:
  \<^verbatim>\<open>while data[off:off+4] == b'\x21\x06\xC0\xDE': ...; off += 12\<close>.
\<close>

definition postDataMagic :: bytes where
  "postDataMagic = [0x21, 0x06, 0xC0, 0xDE]"

function scanPostData :: "bytes \<Rightarrow> nat \<Rightarrow> bytes \<Rightarrow> bytes" where
  "scanPostData data arm9PostDataOffset postData =
     (if pyslice data arm9PostDataOffset (arm9PostDataOffset + 4) = postDataMagic
      then scanPostData data (arm9PostDataOffset + 12)
             (postData @ pyslice data arm9PostDataOffset (arm9PostDataOffset + 12))
      else postData)"
  by pat_completeness auto
termination
proof (relation "measure (\<lambda>(data, off, acc). length data - off)")
  show "wf (measure (\<lambda>(data, off, acc). length data - off))"
    by simp
next
  fix data :: bytes and off :: nat and acc :: bytes
  assume "pyslice data off (off + 4) = postDataMagic"
  then have "length (pyslice data off (off + 4)) = 4"
    by (simp add: postDataMagic_def)
  then have "off + 4 \<le> length data"
    by (simp add: pyslice_def)
  then show "((data, off + 12, acc @ pyslice data off (off + 12)), (data, off, acc))
               \<in> measure (\<lambda>(data, off, acc). length data - off)"
    by simp
qed

text \<open>
  The file allocation table: the loop \<^verbatim>\<open>for i in range(len(fat) // 8)\<close> appends the
  contents of file \<open>i\<close> and stores \<open>i\<close> in the dictionary \<^verbatim>\<open>offset2Id\<close> under the
  file's start offset; the second loop looks the sorted keys up.
\<close>

fun readFat :: "bytes \<Rightarrow> bytes \<Rightarrow> nat list \<Rightarrow> bytes list \<times> (nat \<times> nat) list
    \<Rightarrow> error + (bytes list \<times> (nat \<times> nat) list)" where
  "readFat data fat [] st = Inr st"
| "readFat data fat (i # rest) (fileList, offset2Id) =
     (case unpack_II fat (8 * i) of
        Inl e \<Rightarrow> Inl e
      | Inr (startOffset, endOffset) \<Rightarrow>
          readFat data fat rest
            (fileList @ [pyslice data startOffset endOffset],
             AList.update startOffset i offset2Id))"

fun lookupSorted :: "(nat \<times> nat) list \<Rightarrow> nat list \<Rightarrow> nat list \<Rightarrow> error + nat list" where
  "lookupSorted offset2Id [] ids = Inr ids"
| "lookupSorted offset2Id (off # rest) ids =
     (case map_of offset2Id off of
        None \<Rightarrow> Inl KeyError
      | Some i \<Rightarrow> lookupSorted offset2Id rest (ids @ [i]))"

definition readFiles :: "bytes \<Rightarrow> bytes \<Rightarrow> error + (bytes list \<times> nat list)" where
  "readFiles data fat =
     (if fat \<noteq> []
      then (case readFat data fat [0 ..< length fat div 8] ([], []) of
              Inl e \<Rightarrow> Inl e
            | Inr (fileList, offset2Id) \<Rightarrow>
                (case lookupSorted offset2Id (sort (map fst offset2Id)) [] of
                   Inl e \<Rightarrow> Inl e
                 | Inr ids \<Rightarrow> Inr (fileList, ids)))
      else Inr ([], []))"

text \<open>
  \<^verbatim>\<open>NintendoDSRom._initFromData(data)\<close>. The first argument bounds the nesting of
  \<^verbatim>\<open>loadFolder\<close> calls, as in \<open>load\<close>.
\<close>

definition resolveSigOffset :: "bytes \<Rightarrow> nat \<Rightarrow> error + nat" where
  "resolveSigOffset data romSizeOrSig =
     (case (if 0x1004 \<le> length data then unpack_I data 0x1000 else Inr 0) of
        Inl e \<Rightarrow> Inl e
      | Inr realSigOffset \<Rightarrow>
          Inr (if realSigOffset = 0 \<and> length data > romSizeOrSig
               then romSizeOrSig else realSigOffset))"

definition initFromData :: "nat \<Rightarrow> bytes \<Rightarrow> error + NintendoDSRom" where
  "initFromData depth data0 =
     (case extendData data0 of
        Inl e \<Rightarrow> Inl e
      | Inr data \<Rightarrow>
     (case readHeader data 0 of
        Inl e \<Rightarrow> Inl e
      | Inr ((h, l), off) \<Rightarrow>
     (case resolveSigOffset data (romSizeOrRsaSigOffset h) of
        Inl e \<Rightarrow> Inl e
      | Inr realSigOffset \<Rightarrow>
     (let fnt = pyslice data (fntOffset l) (fntOffset l + fntLen l);
          fat = pyslice data (fatOffset l) (fatOffset l + fatLen l)
      in
     (case (if fnt \<noteq> [] then load depth fnt else Inr (Folder [] [] 0)) of
        Inl e \<Rightarrow> Inl e
      | Inr tree \<Rightarrow>
     (case readFiles data fat of
        Inl e \<Rightarrow> Inl e
      | Inr (fileList, ids) \<Rightarrow>
          Inr (HeaderFields.extend h
            (NintendoDSRom.fields
               off
               (pyslice data 0x200 (min (arm9Offset h) (length data)))
               (if realSigOffset \<noteq> 0
                then pyslice data realSigOffset (min (length data) (realSigOffset + 0x88))
                else [])
               (pyslice data (arm9Offset h) (arm9Offset h + arm9Len h))
               (pyslice data (arm7Offset h) (arm7Offset h + arm7Len h))
               (pyslice data (arm9OvTOffset l) (arm9OvTOffset l + arm9OvTLen l))
               (pyslice data (arm7OvTOffset l) (arm7OvTOffset l + arm7OvTLen l))
               (if iconBannerOffset l \<noteq> 0
                then pyslice data (iconBannerOffset l) (iconBannerOffset l + ICON_BANNER_LEN)
                else [])
               (if debugRomOffset l \<noteq> 0
                then pyslice data (debugRomOffset l) (debugRomOffset l + debugRomSize l)
                else [])
               (scanPostData data (arm9Offset h + arm9Len h) [])
               tree
               fileList
               ids))))))))"

subsection \<open>Files by name\<close>

text \<open>\<^verbatim>\<open>getFileByName\<close> and \<^verbatim>\<open>setFileByName\<close>; the second returns the ROM object as changed.\<close>

definition getFileByName :: "NintendoDSRom \<Rightarrow> string \<Rightarrow> error + bytes" where
  "getFileByName self filename =
     (case idOf (filenames self) filename of
        Inl e \<Rightarrow> Inl e
      | Inr None \<Rightarrow> Inl ValueError
      | Inr (Some fid) \<Rightarrow> getitem (rom_files self) fid)"

definition setFileByName :: "NintendoDSRom \<Rightarrow> string \<Rightarrow> bytes \<Rightarrow> error + NintendoDSRom" where
  "setFileByName self filename data =
     (case idOf (filenames self) filename of
        Inl e \<Rightarrow> Inl e
      | Inr None \<Rightarrow> Inl ValueError
      | Inr (Some fid) \<Rightarrow>
          (case setitem (rom_files self) fid data of
             Inl e \<Rightarrow> Inl e
           | Inr fileList \<Rightarrow> Inr (self\<lparr>rom_files := fileList\<rparr>)))"

text \<open>
  The pieces of a path that the two stripping loops leave: the pieces of
  \<^verbatim>\<open>path.split('/')\<close> without the empty ones at either end.
\<close>

definition pathPieces :: "string \<Rightarrow> string list" where
  "pathPieces path =
     dropWhile (\<lambda>p. p = []) (rev (dropWhile (\<lambda>p. p = []) (rev (split_on CHR ''/'' path))))"

text \<open>
  \<^verbatim>\<open>NintendoDSRom._initAsNew()\<close>: the ROM with default values. The method does not set
  \<^verbatim>\<open>self.headerOffset\<close>; the field is 0 here.
\<close>

definition nintendoLogoDefault :: bytes where
  "nintendoLogoDefault =
     [0x24, 0xFF, 0xAE, 0x51, 0x69, 0x9A, 0xA2, 0x21, 0x3D, 0x84, 0x82, 0x0A,
      0x84, 0xE4, 0x09, 0xAD, 0x11, 0x24, 0x8B, 0x98, 0xC0, 0x81, 0x7F, 0x21,
      0xA3, 0x52, 0xBE, 0x19, 0x93, 0x09, 0xCE, 0x20, 0x10, 0x46, 0x4A, 0x4A,
      0xF8, 0x27, 0x31, 0xEC, 0x58, 0xC7, 0xE8, 0x33, 0x82, 0xE3, 0xCE, 0xBF,
      0x85, 0xF4, 0xDF, 0x94, 0xCE, 0x4B, 0x09, 0xC1, 0x94, 0x56, 0x8A, 0xC0,
      0x13, 0x72, 0xA7, 0xFC, 0x9F, 0x84, 0x4D, 0x73, 0xA3, 0xCA, 0x9A, 0x61,
      0x58, 0x97, 0xA3, 0x27, 0xFC, 0x03, 0x98, 0x76, 0x23, 0x1D, 0xC7, 0x61,
      0x03, 0x04, 0xAE, 0x56, 0xBF, 0x38, 0x84, 0x00, 0x40, 0xA7, 0x0E, 0xFD,
      0xFF, 0x52, 0xFE, 0x03, 0x6F, 0x95, 0x30, 0xF1, 0x97, 0xFB, 0xC0, 0x85,
      0x60, 0xD6, 0x80, 0x25, 0xA9, 0x63, 0xBE, 0x03, 0x01, 0x4E, 0x38, 0xE2,
      0xF9, 0xA2, 0x34, 0xFF, 0xBB, 0x3E, 0x03, 0x44, 0x78, 0x00, 0x90, 0xCB,
      0x88, 0x11, 0x3A, 0x94, 0x65, 0xC0, 0x7C, 0x63, 0x87, 0xF0, 0x3C, 0xAF,
      0xD6, 0x25, 0xE4, 0x8B, 0x38, 0x0A, 0xAC, 0x72, 0x21, 0xD4, 0xF8, 0x07]"

definition initAsNew :: NintendoDSRom where
  "initAsNew =
     \<lparr>name = [],
      idCode = [0x23, 0x23, 0x23, 0x23],
      developerCode = [0, 0],
      unitCode = 0,
      encryptionSeedSelect = 0,
      deviceCapacity = 9,
      pad015 = 0, pad016 = 0, pad017 = 0, pad018 = 0,
      pad019 = 0, pad01A = 0, pad01B = 0, pad01C = 0,
      region = 0,
      version = 0,
      autostart = 0,
      arm9Offset = 0,
      arm9EntryAddress = 0x2000800,
      arm9RamAddress = 0x2000000,
      arm9Len = 0,
      arm7Offset = 0,
      arm7EntryAddress = 0x2380000,
      arm7RamAddress = 0x2380000,
      arm7Len = 0,
      normalCardControlRegisterSettings = 0x0416657,
      secureCardControlRegisterSettings = 0x81808f8,
      secureAreaChecksum = 0x0000,
      secureTransferDelay = 0x0D7E,
      arm9CodeSettingsPointerAddress = 0,
      arm7CodeSettingsPointerAddress = 0,
      secureAreaDisable = replicate 8 0,
      romSizeOrRsaSigOffset = 0,
      pad088 = replicate 0x38 0,
      nintendoLogo = nintendoLogoDefault,
      debugRomAddress = 0,
      pad16C = replicate 0x94 0,
      headerOffset = 0,
      pad200 = replicate 0x3E00 0,
      rsaSignature = [],
      arm9 = [],
      arm7 = [],
      arm9OverlayTable = [],
      arm7OverlayTable = [],
      iconBanner = [],
      debugRom = [],
      arm9PostData = [],
      filenames = Folder [] [] 0,
      rom_files = [],
      sortedFileIds = []\<rparr>"

text \<open>
  The header at its byte offsets: the value of each field as a function of the buffer,
  for a buffer of at least \<^verbatim>\<open>0x200\<close> bytes. \<open>readHeader_eq\<close> below proves that
  the cursor of \<open>readHeader\<close> reads exactly these.
\<close>

definition field8 :: "bytes \<Rightarrow> nat \<Rightarrow> nat" where
  "field8 d off = unat (d ! off)"

definition field16 :: "bytes \<Rightarrow> nat \<Rightarrow> nat" where
  "field16 d off = le_nat (pyslice d off (off + 2))"

definition field32 :: "bytes \<Rightarrow> nat \<Rightarrow> nat" where
  "field32 d off = le_nat (pyslice d off (off + 4))"

definition headerFieldsAt :: "bytes \<Rightarrow> HeaderFields" where
  "headerFieldsAt d =
     \<lparr>name = rstrip_zero (pyslice d 0x0 0xC),
      idCode = pyslice d 0xC 0x10,
      developerCode = pyslice d 0x10 0x12,
      unitCode = field8 d 0x12,
      encryptionSeedSelect = field8 d 0x13,
      deviceCapacity = field8 d 0x14,
      pad015 = field8 d 0x15,
      pad016 = field8 d 0x16,
      pad017 = field8 d 0x17,
      pad018 = field8 d 0x18,
      pad019 = field8 d 0x19,
      pad01A = field8 d 0x1A,
      pad01B = field8 d 0x1B,
      pad01C = field8 d 0x1C,
      region = field8 d 0x1D,
      version = field8 d 0x1E,
      autostart = field8 d 0x1F,
      arm9Offset = field32 d 0x20,
      arm9EntryAddress = field32 d 0x24,
      arm9RamAddress = field32 d 0x28,
      arm9Len = field32 d 0x2C,
      arm7Offset = field32 d 0x30,
      arm7EntryAddress = field32 d 0x34,
      arm7RamAddress = field32 d 0x38,
      arm7Len = field32 d 0x3C,
      normalCardControlRegisterSettings = field32 d 0x60,
      secureCardControlRegisterSettings = field32 d 0x64,
      secureAreaChecksum = field16 d 0x6C,
      secureTransferDelay = field16 d 0x6E,
      arm9CodeSettingsPointerAddress = field32 d 0x70,
      arm7CodeSettingsPointerAddress = field32 d 0x74,
      secureAreaDisable = pyslice d 0x78 0x80,
      romSizeOrRsaSigOffset = field32 d 0x80,
      pad088 = pyslice d 0x88 0xC0,
      nintendoLogo = pyslice d 0xC0 0x15C,
      debugRomAddress = field32 d 0x168,
      pad16C = pyslice d 0x16C 0x200\<rparr>"

definition headerLocalsAt :: "bytes \<Rightarrow> HeaderLocals" where
  "headerLocalsAt d =
     \<lparr>fntOffset = field32 d 0x40,
      fntLen = field32 d 0x44,
      fatOffset = field32 d 0x48,
      fatLen = field32 d 0x4C,
      arm9OvTOffset = field32 d 0x50,
      arm9OvTLen = field32 d 0x54,
      arm7OvTOffset = field32 d 0x58,
      arm7OvTLen = field32 d 0x5C,
      iconBannerOffset = field32 d 0x68,
      headerSize = field32 d 0x84,
      nintendoLogoChecksum = field16 d 0x15C,
      headerChecksum = field16 d 0x15E,
      debugRomOffset = field32 d 0x160,
      debugRomSize = field32 d 0x164\<rparr>"

text \<open>The buffer that \<^verbatim>\<open>_initFromData\<close> works on: the input, zero-padded to \<^verbatim>\<open>0x200\<close> bytes.\<close>

definition padded :: "bytes \<Rightarrow> bytes" where
  "padded data = data @ replicate (0x200 - length data) 0"

text \<open>
  The file allocation table in closed form: the contents of the files, the dictionary
  \<^verbatim>\<open>offset2Id\<close> after the first loop, and the IDs the second loop collects.
\<close>

definition fatFiles :: "bytes \<Rightarrow> bytes \<Rightarrow> bytes list" where
  "fatFiles data fat =
     map (\<lambda>i. pyslice data (field32 fat (8 * i)) (field32 fat (8 * i + 4)))
       [0 ..< length fat div 8]"

definition offset2IdOf :: "bytes \<Rightarrow> (nat \<times> nat) list" where
  "offset2IdOf fat = fold (\<lambda>i. AList.update (field32 fat (8 * i)) i) [0 ..< length fat div 8] []"

definition fatSortedIds :: "bytes \<Rightarrow> nat list" where
  "fatSortedIds fat =
     map (\<lambda>off. the (map_of (offset2IdOf fat) off)) (sort (map fst (offset2IdOf fat)))"

text \<open>
  The regions of the filename table and of the file allocation table, the offset of the
  signature that \<open>resolveSigOffset\<close> computes, and the ROM object that
  \<^verbatim>\<open>_initFromData\<close> builds from the padded buffer \<open>d\<close> once the filename table is
  decoded to \<open>tree\<close>; \<open>initFromData_eq\<close> below proves that \<open>initFromData\<close>
  returns it.
\<close>

definition fntRegion :: "bytes \<Rightarrow> bytes" where
  "fntRegion d = pyslice d (field32 d 0x40) (field32 d 0x40 + field32 d 0x44)"

definition fatRegion :: "bytes \<Rightarrow> bytes" where
  "fatRegion d = pyslice d (field32 d 0x48) (field32 d 0x48 + field32 d 0x4C)"

definition sigOffset :: "bytes \<Rightarrow> nat" where
  "sigOffset d =
     (if 0x1004 \<le> length d \<and> field32 d 0x1000 \<noteq> 0 then field32 d 0x1000
      else if field32 d 0x80 < length d then field32 d 0x80
      else 0)"

definition decodedRom :: "bytes \<Rightarrow> Folder \<Rightarrow> NintendoDSRom" where
  "decodedRom d tree =
     HeaderFields.extend (headerFieldsAt d)
       (NintendoDSRom.fields
          0x200
          (pyslice d 0x200 (min (field32 d 0x20) (length d)))
          (if sigOffset d \<noteq> 0
           then pyslice d (sigOffset d) (min (length d) (sigOffset d + 0x88))
           else [])
          (pyslice d (field32 d 0x20) (field32 d 0x20 + field32 d 0x2C))
          (pyslice d (field32 d 0x30) (field32 d 0x30 + field32 d 0x3C))
          (pyslice d (field32 d 0x50) (field32 d 0x50 + field32 d 0x54))
          (pyslice d (field32 d 0x58) (field32 d 0x58 + field32 d 0x5C))
          (if field32 d 0x68 \<noteq> 0
           then pyslice d (field32 d 0x68) (field32 d 0x68 + 0x840)
           else [])
          (if field32 d 0x160 \<noteq> 0
           then pyslice d (field32 d 0x160) (field32 d 0x160 + field32 d 0x164)
           else [])
          (scanPostData d (field32 d 0x20 + field32 d 0x2C) [])
          tree
          (fatFiles d (fatRegion d))
          (fatSortedIds (fatRegion d)))"


subsection \<open>Sample buffers\<close>

text \<open>
  ROM images used as examples further down. \<open>fullBannerRom\<close> has \<open>0x850\<close> bytes, the
  icon banner declared at \<open>0x10\<close> and a debug ROM of 8 bytes declared at \<open>0x20\<close>;
  \<open>shortBannerRom\<close> has \<open>0x69\<close> bytes and declares the icon banner at \<open>0x10\<close>.
\<close>

definition fullBannerRom :: bytes where
  "fullBannerRom =
     replicate 0x68 0 @ [0x10] @ replicate 0xF7 0 @ [0x20, 0, 0, 0, 8] @ replicate 0x6EB 0"

definition shortBannerRom :: bytes where
  "shortBannerRom = replicate 0x68 0 @ [0x10]"

text \<open>
  Both declare an empty ARM9 region at \<open>0x200\<close>. \<open>twoRecordRom\<close> continues with two
  records of 12 bytes that start with the magic and one more byte; \<open>cutRecordRom\<close> ends
  three bytes after the magic.
\<close>

definition twoRecordRom :: bytes where
  "twoRecordRom =
     (replicate 0x20 0 @ [0x00, 0x02, 0x00, 0x00] @ replicate 0x1DC 0)
     @ ([0x21, 0x06, 0xC0, 0xDE] @ replicate 8 1)
     @ ([0x21, 0x06, 0xC0, 0xDE] @ replicate 8 2)
     @ [0xFF]"

definition cutRecordRom :: bytes where
  "cutRecordRom =
     replicate 0x20 0 @ [0x00, 0x02, 0x00, 0x00] @ replicate 0x1DC 0
     @ [0x21, 0x06, 0xC0, 0xDE, 1, 2, 3]"

text \<open>
  \<open>threeFileRom\<close> declares a file allocation table of three records at \<open>0x200\<close>, with
  the ranges 100 to 110, 50 to 60 and 200 to 210. \<open>sharedStartRom\<close> declares one of two
  records at \<open>0x100\<close>, where the padded buffer holds zero bytes.
\<close>

definition threeFileRom :: bytes where
  "threeFileRom =
     replicate 0x48 0 @ [0x00, 0x02, 0, 0, 24, 0, 0, 0] @ replicate 0x1B0 0
       @ [100, 0, 0, 0, 110, 0, 0, 0, 50, 0, 0, 0, 60, 0, 0, 0, 200, 0, 0, 0, 210, 0, 0, 0]"

definition sharedStartRom :: bytes where
  "sharedStartRom = replicate 0x48 0 @ [0x00, 0x01, 0, 0, 16]"

text \<open>
  \<open>truncatedRom\<close> has \<open>0x100\<close> bytes, all zero but the low byte of the length of the
  filename table, at \<open>0x44\<close>.
\<close>

definition truncatedRom :: bytes where
  "truncatedRom = replicate 0x44 0 @ [1] @ replicate 0xBB 0"

subsection \<open>The wording of the specification\<close>

text \<open>
  The signature as the specification words it: the word at \<open>0x1000\<close> if the buffer has
  at least \<open>0x1004\<close> bytes and the word is not zero, otherwise the header field if the
  buffer extends past it, otherwise nothing; then at most \<open>0x88\<close> bytes from that offset.
\<close>

definition rsaSignature_as_claimed :: "bytes \<Rightarrow> bytes" where
  "rsaSignature_as_claimed d =
     (if 0x1004 \<le> length d \<and> field32 d 0x1000 \<noteq> 0
      then pyslice d (field32 d 0x1000) (min (length d) (field32 d 0x1000 + 0x88))
      else if field32 d 0x80 < length d
      then pyslice d (field32 d 0x80) (min (length d) (field32 d 0x80 + 0x88))
      else [])"

text \<open>
  Every header field that starts at or after \<open>n\<close> is zero: the number 0, zero bytes,
  or for the name, which is stripped of its trailing zero bytes, the empty string.
\<close>

definition fieldsBeyondZero :: "nat \<Rightarrow> HeaderFields \<Rightarrow> HeaderLocals \<Rightarrow> bool" where
  "fieldsBeyondZero n h l \<longleftrightarrow>
     (n \<le> 0x0 \<longrightarrow> name h = [])
     \<and> (n \<le> 0xC \<longrightarrow> idCode h = replicate 0x4 0)
     \<and> (n \<le> 0x10 \<longrightarrow> developerCode h = replicate 0x2 0)
     \<and> (n \<le> 0x12 \<longrightarrow> unitCode h = 0)
     \<and> (n \<le> 0x13 \<longrightarrow> encryptionSeedSelect h = 0)
     \<and> (n \<le> 0x14 \<longrightarrow> deviceCapacity h = 0)
     \<and> (n \<le> 0x15 \<longrightarrow> pad015 h = 0)
     \<and> (n \<le> 0x16 \<longrightarrow> pad016 h = 0)
     \<and> (n \<le> 0x17 \<longrightarrow> pad017 h = 0)
     \<and> (n \<le> 0x18 \<longrightarrow> pad018 h = 0)
     \<and> (n \<le> 0x19 \<longrightarrow> pad019 h = 0)
     \<and> (n \<le> 0x1A \<longrightarrow> pad01A h = 0)
     \<and> (n \<le> 0x1B \<longrightarrow> pad01B h = 0)
     \<and> (n \<le> 0x1C \<longrightarrow> pad01C h = 0)
     \<and> (n \<le> 0x1D \<longrightarrow> region h = 0)
     \<and> (n \<le> 0x1E \<longrightarrow> version h = 0)
     \<and> (n \<le> 0x1F \<longrightarrow> autostart h = 0)
     \<and> (n \<le> 0x20 \<longrightarrow> arm9Offset h = 0)
     \<and> (n \<le> 0x24 \<longrightarrow> arm9EntryAddress h = 0)
     \<and> (n \<le> 0x28 \<longrightarrow> arm9RamAddress h = 0)
     \<and> (n \<le> 0x2C \<longrightarrow> arm9Len h = 0)
     \<and> (n \<le> 0x30 \<longrightarrow> arm7Offset h = 0)
     \<and> (n \<le> 0x34 \<longrightarrow> arm7EntryAddress h = 0)
     \<and> (n \<le> 0x38 \<longrightarrow> arm7RamAddress h = 0)
     \<and> (n \<le> 0x3C \<longrightarrow> arm7Len h = 0)
     \<and> (n \<le> 0x40 \<longrightarrow> fntOffset l = 0)
     \<and> (n \<le> 0x44 \<longrightarrow> fntLen l = 0)
     \<and> (n \<le> 0x48 \<longrightarrow> fatOffset l = 0)
     \<and> (n \<le> 0x4C \<longrightarrow> fatLen l = 0)
     \<and> (n \<le> 0x50 \<longrightarrow> arm9OvTOffset l = 0)
     \<and> (n \<le> 0x54 \<longrightarrow> arm9OvTLen l = 0)
     \<and> (n \<le> 0x58 \<longrightarrow> arm7OvTOffset l = 0)
     \<and> (n \<le> 0x5C \<longrightarrow> arm7OvTLen l = 0)
     \<and> (n \<le> 0x60 \<longrightarrow> normalCardControlRegisterSettings h = 0)
     \<and> (n \<le> 0x64 \<longrightarrow> secureCardControlRegisterSettings h = 0)
     \<and> (n \<le> 0x68 \<longrightarrow> iconBannerOffset l = 0)
     \<and> (n \<le> 0x6C \<longrightarrow> secureAreaChecksum h = 0)
     \<and> (n \<le> 0x6E \<longrightarrow> secureTransferDelay h = 0)
     \<and> (n \<le> 0x70 \<longrightarrow> arm9CodeSettingsPointerAddress h = 0)
     \<and> (n \<le> 0x74 \<longrightarrow> arm7CodeSettingsPointerAddress h = 0)
     \<and> (n \<le> 0x78 \<longrightarrow> secureAreaDisable h = replicate 0x8 0)
     \<and> (n \<le> 0x80 \<longrightarrow> romSizeOrRsaSigOffset h = 0)
     \<and> (n \<le> 0x84 \<longrightarrow> headerSize l = 0)
     \<and> (n \<le> 0x88 \<longrightarrow> pad088 h = replicate 0x38 0)
     \<and> (n \<le> 0xC0 \<longrightarrow> nintendoLogo h = replicate 0x9C 0)
     \<and> (n \<le> 0x15C \<longrightarrow> nintendoLogoChecksum l = 0)
     \<and> (n \<le> 0x15E \<longrightarrow> headerChecksum l = 0)
     \<and> (n \<le> 0x160 \<longrightarrow> debugRomOffset l = 0)
     \<and> (n \<le> 0x164 \<longrightarrow> debugRomSize l = 0)
     \<and> (n \<le> 0x168 \<longrightarrow> debugRomAddress h = 0)
     \<and> (n \<le> 0x16C \<longrightarrow> pad16C h = replicate 0x94 0)"


section \<open>The filename-table encoder\<close>

text \<open>
  The first statement of \<^verbatim>\<open>parseFolder\<close> reads its local \<^verbatim>\<open>nextFolderID\<close> before
  any assignment, so every call raises \<^verbatim>\<open>UnboundLocalError\<close>, whatever the folder.
\<close>

lemma parseFolder_raises: "parseFolder d parentID folderEntries = Inl UnboundLocalError"
  by (simp add: load_local_def)

declare parseFolder.simps [simp del]

lemma save_raises: "save root = Inl UnboundLocalError"
  by (simp add: save_def parseFolder_raises)

text \<open>
  Claim C1 (round trip of the filename tree). The claim asks that \<^verbatim>\<open>load(save(tree))\<close>
  gives back the files, the subfolder names and the file IDs of \<open>tree\<close>. In the code
  \<^verbatim>\<open>save\<close> returns no table for any tree: the composition ends with the
  \<^verbatim>\<open>UnboundLocalError\<close> of \<^verbatim>\<open>parseFolder\<close>, and \<^verbatim>\<open>load\<close> is never reached.
\<close>

theorem load_save_raises:
  "(case save tree of Inl e \<Rightarrow> Inl e | Inr fnt \<Rightarrow> load depth fnt) = Inl UnboundLocalError"
  by (simp add: save_raises)

text \<open>
  Claim C2 (root sentinel). The claim asks that \<^verbatim>\<open>save\<close> gives the root folder the
  ID \<^verbatim>\<open>0xF000\<close>. The call \<^verbatim>\<open>parseFolder(root, rootParentId)\<close> that is to return the
  root's ID raises before it has taken an ID, so no folder ID is assigned and neither
  the assertion on \<^verbatim>\<open>rootId\<close> nor the code after it runs.
\<close>

theorem save_assigns_no_root_id:
  "parseFolder root (countFoldersIn root) [] = Inl UnboundLocalError
   \<and> save root \<noteq> Inl AssertionError \<and> (\<forall>fnt. save root \<noteq> Inr fnt)"
  by (simp add: save_raises parseFolder_raises)

text \<open>
  Claim C3 (name-length limit). The claim asks for a format-capacity error
  (\<^verbatim>\<open>ValueError\<close>) on a name of 128 bytes and for success on names of at most 127
  bytes. The length check of \<^verbatim>\<open>parseFolder\<close> stands after the statement that raises, so
  a 128-byte file name ends in \<^verbatim>\<open>UnboundLocalError\<close>, not \<^verbatim>\<open>ValueError\<close>, and a
  127-byte name does not succeed either.
\<close>

theorem save_name_limit_unreached:
  "save (Folder [] [replicate 128 CHR ''a''] 0) = Inl UnboundLocalError
   \<and> save (Folder [] [replicate 128 CHR ''a''] 0) \<noteq> Inl ValueError
   \<and> save (Folder [] [replicate 127 CHR ''a''] 0) = Inl UnboundLocalError"
  by (simp add: save_raises)

section \<open>Path lookup\<close>

text \<open>
  Claim C4 (lookup never raises). A path without any character other than the
  separator, the empty path among them, splits into empty pieces only; the first
  stripping loop removes them all and then reads \<^verbatim>\<open>pathList[-1]\<close> of the empty list.
  \<^verbatim>\<open>idOf\<close> and \<^verbatim>\<open>subfolder\<close> raise \<^verbatim>\<open>IndexError\<close> there instead of returning
  \<^verbatim>\<open>None\<close>.
\<close>

theorem lookup_empty_path_raises:
  "idOf self [] = Inl IndexError \<and> subfolder self [] = Inl IndexError
   \<and> idOf self ''/'' = Inl IndexError \<and> subfolder self ''/'' = Inl IndexError"
  by (simp add: idOf_def subfolder_def)

subsection \<open>The stripping loops in closed form\<close>

lemma strip_trailing_eq:
  "strip_trailing xs =
     (if rev (dropWhile (\<lambda>p. p = []) (rev xs)) = [] then Inl IndexError
      else Inr (rev (dropWhile (\<lambda>p. p = []) (rev xs))))"
proof (induction xs rule: rev_induct)
  case Nil
  show ?case by (subst strip_trailing.simps) simp
next
  case (snoc x xs)
  have "strip_trailing (xs @ [x]) = (if x = [] then strip_trailing xs else Inr (xs @ [x]))"
    by (subst strip_trailing.simps) (simp del: strip_trailing.simps)
  with snoc show ?case
    by (simp del: strip_trailing.simps)
qed

declare strip_trailing.simps [simp del]

lemma strip_leading_eq:
  "strip_leading xs =
     (if dropWhile (\<lambda>p. p = []) xs = [] then Inl IndexError
      else Inr (dropWhile (\<lambda>p. p = []) xs))"
  by (induction xs) auto

lemma strip_both:
  "(case strip_trailing xs of Inl e \<Rightarrow> Inl e | Inr ys \<Rightarrow> strip_leading ys) =
     (if dropWhile (\<lambda>p. p = []) (rev (dropWhile (\<lambda>p. p = []) (rev xs))) = [] then Inl IndexError
      else Inr (dropWhile (\<lambda>p. p = []) (rev (dropWhile (\<lambda>p. p = []) (rev xs)))))"
proof (cases "dropWhile (\<lambda>p. p = []) (rev xs) = []")
  case True
  then have "strip_trailing xs = Inl IndexError"
    by (subst strip_trailing_eq) (simp only: rev.simps if_True simp_thms)
  with True show ?thesis
    by (simp only: rev.simps dropWhile.simps sum.case if_True simp_thms)
next
  case False
  then have "strip_trailing xs = Inr (rev (dropWhile (\<lambda>p. p = []) (rev xs)))"
    by (subst strip_trailing_eq) (simp only: rev_is_Nil_conv if_False simp_thms)
  then show ?thesis
    by (simp only: sum.case strip_leading_eq)
qed

lemma split_on_not_Nil: "split_on c s \<noteq> []"
  by (induction s) auto

lemma split_on_snoc: "split_on c (s @ [c]) = split_on c s @ [[]]"
proof (induction s)
  case Nil
  show ?case by simp
next
  case (Cons a s)
  then show ?case
    using split_on_not_Nil [of c s] by (cases "split_on c s") auto
qed

lemma set_split_on: "(\<exists>x \<in> set (split_on c s). x \<noteq> []) \<longleftrightarrow> (\<exists>ch \<in> set s. ch \<noteq> c)"
proof (induction s)
  case Nil
  show ?case by simp
next
  case (Cons a s)
  then show ?case
    using split_on_not_Nil [of c s] by (cases "split_on c s") auto
qed

lemma strip_both_Nil:
  "dropWhile P (rev (dropWhile P (rev xs))) = [] \<longleftrightarrow> (\<forall>x \<in> set xs. P x)"
proof
  assume a: "dropWhile P (rev (dropWhile P (rev xs))) = []"
  show "\<forall>x \<in> set xs. P x"
  proof (cases "dropWhile P (rev xs)")
    case Nil
    then show ?thesis by (simp add: dropWhile_eq_Nil_conv)
  next
    case (Cons y ys)
    then have "\<not> P y" using hd_dropWhile [of P "rev xs"] by simp
    moreover from a Cons have "P y" by (simp add: dropWhile_eq_Nil_conv)
    ultimately show ?thesis by simp
  qed
next
  assume "\<forall>x \<in> set xs. P x"
  then have e: "dropWhile P (rev xs) = []"
    by (simp add: dropWhile_eq_Nil_conv)
  show "dropWhile P (rev (dropWhile P (rev xs))) = []"
    unfolding e by simp
qed

lemma pathPieces_Nil: "pathPieces path = [] \<longleftrightarrow> (\<forall>ch \<in> set path. ch = CHR ''/'')"
  unfolding pathPieces_def strip_both_Nil
  using set_split_on [of "CHR ''/''" path] by blast

lemma idOf_eq:
  "idOf self path =
     (if \<forall>ch \<in> set path. ch = CHR ''/'' then Inl IndexError
      else idOf_findInFolder (pathPieces path) self)"
proof -
  have "idOf self path =
      (case (case strip_trailing (split_on CHR ''/'' path) of Inl e \<Rightarrow> Inl e
             | Inr ys \<Rightarrow> strip_leading ys) of
         Inl e \<Rightarrow> Inl e | Inr pl \<Rightarrow> idOf_findInFolder pl self)"
    by (simp add: idOf_def split: sum.splits)
  then show ?thesis
    unfolding strip_both using pathPieces_Nil [of path] by (simp add: pathPieces_def)
qed

lemma subfolder_eq:
  "subfolder self path =
     (if \<forall>ch \<in> set path. ch = CHR ''/'' then Inl IndexError
      else subfolder_findInFolder (pathPieces path) self)"
proof -
  have "subfolder self path =
      (case (case strip_trailing (split_on CHR ''/'' path) of Inl e \<Rightarrow> Inl e
             | Inr ys \<Rightarrow> strip_leading ys) of
         Inl e \<Rightarrow> Inl e | Inr pl \<Rightarrow> subfolder_findInFolder pl self)"
    by (simp add: subfolder_def split: sum.splits)
  then show ?thesis
    unfolding strip_both using pathPieces_Nil [of path] by (simp add: pathPieces_def)
qed

lemma list_index_member: "x \<in> set xs \<Longrightarrow> \<exists>i. list_index xs x = Inr i \<and> i < length xs \<and> xs ! i = x"
  by (induction xs) auto

lemma idOf_findInFolder_total:
  "pl \<noteq> [] \<Longrightarrow> \<exists>r. idOf_findInFolder pl folder = Inr r"
proof (induction pl folder rule: idOf_findInFolder.induct)
  case (1 searchFolder)
  then show ?case by simp
next
  case (2 pathPart searchFolder)
  then show ?case using list_index_member [of pathPart "files searchFolder"] by auto
next
  case (3 pathPart v va searchFolder)
  then show ?case by (cases "map_of (folders searchFolder) pathPart") auto
qed

lemma subfolder_findInFolder_total:
  "pl \<noteq> [] \<Longrightarrow> \<exists>r. subfolder_findInFolder pl folder = Inr r"
proof (induction pl folder rule: subfolder_findInFolder.induct)
  case (1 searchFolder)
  then show ?case by simp
next
  case (2 pathPart rest searchFolder)
  then show ?case by (cases "map_of (folders searchFolder) pathPart") auto
qed

subsection \<open>Separators at either end, and paths that resolve to nothing\<close>

text \<open>
  For a path with at least one character other than the separator, \<^verbatim>\<open>idOf\<close> and
  \<^verbatim>\<open>subfolder\<close> return (an ID, a folder or \<^verbatim>\<open>None\<close>) and never raise; a separator
  added in front or at the end changes nothing, the exception of the paths above
  included.
\<close>

lemma pathPieces_leading: "pathPieces (CHR ''/'' # path) = pathPieces path"
proof (cases "\<forall>x \<in> set (split_on CHR ''/'' path). x = []")
  case True
  then have "pathPieces (CHR ''/'' # path) = []" "pathPieces path = []"
    unfolding pathPieces_def strip_both_Nil by simp_all
  then show ?thesis by simp
next
  case False
  then obtain x where x: "x \<in> set (rev (split_on CHR ''/'' path))" "\<not> x = []"
    by auto
  have eq: "dropWhile (\<lambda>p. p = []) (rev (split_on CHR ''/'' path) @ [[]])
          = dropWhile (\<lambda>p. p = []) (rev (split_on CHR ''/'' path)) @ [[]]"
    using x by (rule dropWhile_append1)
  have "pathPieces (CHR ''/'' # path)
          = dropWhile (\<lambda>p. p = [])
              (rev (dropWhile (\<lambda>p. p = []) (rev (split_on CHR ''/'' path) @ [[]])))"
    unfolding pathPieces_def by simp
  also have "\<dots> = dropWhile (\<lambda>p. p = [])
              (rev (dropWhile (\<lambda>p. p = []) (rev (split_on CHR ''/'' path)) @ [[]]))"
    by (simp only: eq)
  also have "\<dots> = pathPieces path"
    unfolding pathPieces_def by simp
  finally show ?thesis .
qed

lemma pathPieces_trailing: "pathPieces (path @ ''/'') = pathPieces path"
  by (simp add: pathPieces_def split_on_snoc)

lemma idOf_leading_slash: "idOf self (CHR ''/'' # path) = idOf self path"
  by (simp add: idOf_eq pathPieces_leading)

lemma idOf_trailing_slash: "idOf self (path @ ''/'') = idOf self path"
  by (simp add: idOf_eq pathPieces_trailing)

lemma subfolder_leading_slash: "subfolder self (CHR ''/'' # path) = subfolder self path"
  by (simp add: subfolder_eq pathPieces_leading)

lemma subfolder_trailing_slash: "subfolder self (path @ ''/'') = subfolder self path"
  by (simp add: subfolder_eq pathPieces_trailing)

lemma idOf_returns:
  assumes "\<exists>ch \<in> set path. ch \<noteq> CHR ''/''"
  shows "\<exists>r. idOf self path = Inr r"
proof -
  from assms have "pathPieces path \<noteq> []"
    using pathPieces_Nil [of path] by blast
  then show ?thesis
    using assms idOf_findInFolder_total [of "pathPieces path" self] by (simp add: idOf_eq)
qed

lemma subfolder_returns:
  assumes "\<exists>ch \<in> set path. ch \<noteq> CHR ''/''"
  shows "\<exists>r. subfolder self path = Inr r"
proof -
  from assms have "pathPieces path \<noteq> []"
    using pathPieces_Nil [of path] by blast
  then show ?thesis
    using assms subfolder_findInFolder_total [of "pathPieces path" self]
    by (simp add: subfolder_eq)
qed

lemma idOf_raises_only_IndexError: "idOf self path = Inl e \<Longrightarrow> e = IndexError"
proof (cases "\<forall>ch \<in> set path. ch = CHR ''/''")
  case True
  assume "idOf self path = Inl e"
  with True show ?thesis by (simp add: idOf_eq)
next
  case False
  assume a: "idOf self path = Inl e"
  from False have "\<exists>ch \<in> set path. ch \<noteq> CHR ''/''" by blast
  from idOf_returns [OF this, of self] a show ?thesis by auto
qed

section \<open>Files by name\<close>

lemma py_index_not_ValueError: "py_index xs i \<noteq> Inl ValueError"
  by (simp add: py_index_def)

lemma getitem_not_ValueError: "getitem xs i \<noteq> Inl ValueError"
  using py_index_not_ValueError [of xs i]
  by (cases "py_index xs i") (auto simp: getitem_def)

lemma setitem_not_ValueError: "setitem xs i v \<noteq> Inl ValueError"
  using py_index_not_ValueError [of xs i]
  by (cases "py_index xs i") (auto simp: setitem_def)

lemma idOf_not_ValueError: "idOf self path \<noteq> Inl ValueError"
  using idOf_raises_only_IndexError [of self path ValueError] by auto

lemma py_index_bound: "py_index xs i = Inr j \<Longrightarrow> j < length xs"
  by (auto simp: py_index_def split: if_splits)

lemma getFileByName_ValueError:
  "getFileByName rom path = Inl ValueError \<longleftrightarrow> idOf (filenames rom) path = Inr None"
proof (cases "idOf (filenames rom) path")
  case (Inl e)
  then have "e \<noteq> ValueError"
    using idOf_not_ValueError [of "filenames rom" path] by auto
  with Inl show ?thesis
    by (simp add: getFileByName_def)
next
  case (Inr r)
  then show ?thesis
    using getitem_not_ValueError [of "rom_files rom"]
    by (cases r) (simp_all add: getFileByName_def)
qed

lemma setFileByName_ValueError:
  "setFileByName rom path v = Inl ValueError \<longleftrightarrow> idOf (filenames rom) path = Inr None"
proof (cases "idOf (filenames rom) path")
  case (Inl e)
  then have "e \<noteq> ValueError"
    using idOf_not_ValueError [of "filenames rom" path] by auto
  with Inl show ?thesis
    by (simp add: setFileByName_def)
next
  case (Inr r)
  show ?thesis
  proof (cases r)
    case None
    with Inr show ?thesis by (simp add: setFileByName_def)
  next
    case (Some fid)
    with Inr show ?thesis
      using setitem_not_ValueError [of "rom_files rom" fid v]
      by (cases "setitem (rom_files rom) fid v") (simp_all add: setFileByName_def)
  qed
qed

lemma setFileByName_result:
  assumes "idOf (filenames rom) path = Inr (Some fid)"
    and "setFileByName rom path v = Inr rom'"
  shows "\<exists>j < length (rom_files rom). rom' = rom\<lparr>rom_files := (rom_files rom)[j := v]\<rparr>"
proof (cases "py_index (rom_files rom) fid")
  case (Inl e)
  with assms show ?thesis
    by (simp add: setFileByName_def setitem_def)
next
  case (Inr j)
  with assms have "rom' = rom\<lparr>rom_files := (rom_files rom)[j := v]\<rparr>"
    by (simp add: setFileByName_def setitem_def)
  moreover from Inr have "j < length (rom_files rom)"
    by (rule py_index_bound)
  ultimately show ?thesis
    by (intro exI [of _ j] conjI)
qed

lemma byName_in_range:
  assumes "idOf (filenames rom) path = Inr (Some fid)"
    and "0 \<le> fid \<and> fid < int (length (rom_files rom))"
  shows "getFileByName rom path = Inr (rom_files rom ! nat fid)
       \<and> setFileByName rom path v = Inr (rom\<lparr>rom_files := (rom_files rom)[nat fid := v]\<rparr>)"
  using assms
  by (simp add: getFileByName_def setFileByName_def getitem_def setitem_def py_index_def)

lemma byName_negative:
  assumes "idOf (filenames rom) path = Inr (Some fid)"
    and "- int (length (rom_files rom)) \<le> fid \<and> fid < 0"
  shows "getFileByName rom path = Inr (rom_files rom ! nat (int (length (rom_files rom)) + fid))
       \<and> setFileByName rom path v
           = Inr (rom\<lparr>rom_files := (rom_files rom)[nat (int (length (rom_files rom)) + fid) := v]\<rparr>)"
  using assms
  by (simp add: getFileByName_def setFileByName_def getitem_def setitem_def py_index_def)

lemma byName_outside:
  assumes "idOf (filenames rom) path = Inr (Some fid)"
    and "fid < - int (length (rom_files rom)) \<or> int (length (rom_files rom)) \<le> fid"
  shows "getFileByName rom path = Inl IndexError \<and> setFileByName rom path v = Inl IndexError"
proof -
  from assms(2) have "py_index (rom_files rom) fid = Inl IndexError"
    by (auto simp: py_index_def)
  with assms(1) show ?thesis
    by (simp add: getFileByName_def setFileByName_def getitem_def setitem_def)
qed

lemma byName_idOf_raises:
  assumes "idOf (filenames rom) path = Inl e"
  shows "getFileByName rom path = Inl e \<and> setFileByName rom path v = Inl e"
  using assms by (simp add: getFileByName_def setFileByName_def)

text \<open>
  Claim C10 (files by name), as amended. \<^verbatim>\<open>getFileByName\<close> and \<^verbatim>\<open>setFileByName\<close>
  raise \<^verbatim>\<open>ValueError\<close> exactly when \<^verbatim>\<open>idOf\<close> returns \<^verbatim>\<open>None\<close> for the path, and an
  exception of \<^verbatim>\<open>idOf\<close> itself passes through both. When the path resolves to an ID,
  the outcome is that of the list access \<^verbatim>\<open>self.files[fid]\<close>, which the methods do not
  guard:
  \<^item> for \<open>0 \<le> fid < len(files)\<close>, \<^verbatim>\<open>getFileByName\<close> returns the element \<open>fid\<close> and
    \<^verbatim>\<open>setFileByName\<close> replaces that element and nothing else of the ROM;
  \<^item> for \<open>-len(files) \<le> fid < 0\<close> the element is counted from the end
    (\<open>len(files) + fid\<close>);
  \<^item> for every other ID both raise \<^verbatim>\<open>IndexError\<close> and the ROM is not changed.
\<close>

theorem files_by_name:
  "(getFileByName rom path = Inl ValueError \<longleftrightarrow> idOf (filenames rom) path = Inr None)
   \<and> (setFileByName rom path v = Inl ValueError \<longleftrightarrow> idOf (filenames rom) path = Inr None)
   \<and> (\<forall>e. idOf (filenames rom) path = Inl e \<longrightarrow>
          getFileByName rom path = Inl e \<and> setFileByName rom path v = Inl e)
   \<and> (\<forall>fid. idOf (filenames rom) path = Inr (Some fid) \<longrightarrow>
          (0 \<le> fid \<and> fid < int (length (rom_files rom)) \<longrightarrow>
              getFileByName rom path = Inr (rom_files rom ! nat fid)
            \<and> setFileByName rom path v
                = Inr (rom\<lparr>rom_files := (rom_files rom)[nat fid := v]\<rparr>))
        \<and> (- int (length (rom_files rom)) \<le> fid \<and> fid < 0 \<longrightarrow>
              getFileByName rom path
                = Inr (rom_files rom ! nat (int (length (rom_files rom)) + fid))
            \<and> setFileByName rom path v
                = Inr (rom\<lparr>rom_files :=
                         (rom_files rom)[nat (int (length (rom_files rom)) + fid) := v]\<rparr>))
        \<and> (fid < - int (length (rom_files rom)) \<or> int (length (rom_files rom)) \<le> fid \<longrightarrow>
              getFileByName rom path = Inl IndexError
            \<and> setFileByName rom path v = Inl IndexError))"
proof (intro conjI allI impI)
  show "getFileByName rom path = Inl ValueError \<longleftrightarrow> idOf (filenames rom) path = Inr None"
    by (rule getFileByName_ValueError)
  show "setFileByName rom path v = Inl ValueError \<longleftrightarrow> idOf (filenames rom) path = Inr None"
    by (rule setFileByName_ValueError)
next
  fix e
  assume "idOf (filenames rom) path = Inl e"
  then show "getFileByName rom path = Inl e" and "setFileByName rom path v = Inl e"
    using byName_idOf_raises [of rom path e v] by (simp_all only:)
next
  fix fid
  assume "idOf (filenames rom) path = Inr (Some fid)"
    and "0 \<le> fid \<and> fid < int (length (rom_files rom))"
  then show "getFileByName rom path = Inr (rom_files rom ! nat fid)"
    and "setFileByName rom path v = Inr (rom\<lparr>rom_files := (rom_files rom)[nat fid := v]\<rparr>)"
    using byName_in_range [of rom path fid v] by (simp_all only:)
next
  fix fid
  assume "idOf (filenames rom) path = Inr (Some fid)"
    and "- int (length (rom_files rom)) \<le> fid \<and> fid < 0"
  then show "getFileByName rom path
                = Inr (rom_files rom ! nat (int (length (rom_files rom)) + fid))"
    and "setFileByName rom path v
                = Inr (rom\<lparr>rom_files :=
                         (rom_files rom)[nat (int (length (rom_files rom)) + fid) := v]\<rparr>)"
    using byName_negative [of rom path fid v] by (simp_all only:)
next
  fix fid
  assume "idOf (filenames rom) path = Inr (Some fid)"
    and "fid < - int (length (rom_files rom)) \<or> int (length (rom_files rom)) \<le> fid"
  then show "getFileByName rom path = Inl IndexError"
    and "setFileByName rom path v = Inl IndexError"
    using byName_outside [of rom path fid v] by (simp_all only:)
qed

text \<open>
  The theorem at a ROM with two files: the second file is read and replaced through its
  path, the first one and the filename tree stay, and a path that names no file raises
  \<^verbatim>\<open>ValueError\<close>.
\<close>

theorem files_by_name_witness:
  "idOf (Folder [] [''a.bin'', ''b.bin''] 0) ''/b.bin'' = Inr (Some 1)
   \<and> getFileByName (initAsNew\<lparr>filenames := Folder [] [''a.bin'', ''b.bin''] 0,
                               rom_files := [[1], [2, 3]]\<rparr>) ''/b.bin'' = Inr [2, 3]
   \<and> setFileByName (initAsNew\<lparr>filenames := Folder [] [''a.bin'', ''b.bin''] 0,
                               rom_files := [[1], [2, 3]]\<rparr>) ''/b.bin'' [7]
       = Inr (initAsNew\<lparr>filenames := Folder [] [''a.bin'', ''b.bin''] 0,
                          rom_files := [[1], [7]]\<rparr>)
   \<and> getFileByName (initAsNew\<lparr>filenames := Folder [] [''a.bin'', ''b.bin''] 0,
                               rom_files := [[1], [2, 3]]\<rparr>) ''c.bin'' = Inl ValueError"
proof -
  let ?rom = "initAsNew\<lparr>filenames := Folder [] [''a.bin'', ''b.bin''] 0,
                        rom_files := [[1], [2, 3]]\<rparr>"
  have i0: "idOf (Folder [] [''a.bin'', ''b.bin''] 0) ''/b.bin'' = Inr (Some 1)"
    by (simp add: idOf_eq pathPieces_def)
  then have i: "idOf (filenames ?rom) ''/b.bin'' = Inr (Some 1)"
    by simp
  have n: "idOf (filenames ?rom) ''c.bin'' = Inr None"
    by (simp add: idOf_eq pathPieces_def)
  have rng: "0 \<le> (1::int) \<and> 1 < int (length (rom_files ?rom))"
    by simp
  note hit = files_by_name [of ?rom "''/b.bin''" "[7]", THEN conjunct2, THEN conjunct2,
      THEN conjunct2, THEN spec [of _ 1], THEN mp, OF i]
  note inrange = hit [THEN conjunct1, THEN mp, OF rng]
  from inrange have a: "getFileByName ?rom ''/b.bin'' = Inr [2, 3]"
    and b: "setFileByName ?rom ''/b.bin'' [7]
              = Inr (initAsNew\<lparr>filenames := Folder [] [''a.bin'', ''b.bin''] 0,
                                 rom_files := [[1], [7]]\<rparr>)"
    by simp_all
  note miss = files_by_name [of ?rom "''c.bin''" "[]", THEN conjunct1]
  from miss n have c: "getFileByName ?rom ''c.bin'' = Inl ValueError"
    by (simp only:)
  show ?thesis
    by (rule conjI [OF i0 conjI [OF a conjI [OF b c]]])
qed

text \<open>
  The claim as it was stated fails where the path resolves to an ID that the file list
  does not have. The tree below names one file with ID 0 and the ROM has no files (what
  decoding gives for a ROM with a filename table and an empty allocation table): the path
  resolves, and both methods raise \<^verbatim>\<open>IndexError\<close> instead of returning or replacing
  \<^verbatim>\<open>files[0]\<close>.
\<close>

theorem files_by_name_unindexed_id:
  "idOf (filenames (initAsNew\<lparr>filenames := Folder [] [''a''] 0\<rparr>)) ''a'' = Inr (Some 0)
   \<and> rom_files (initAsNew\<lparr>filenames := Folder [] [''a''] 0\<rparr>) = []
   \<and> getFileByName (initAsNew\<lparr>filenames := Folder [] [''a''] 0\<rparr>) ''a'' = Inl IndexError
   \<and> setFileByName (initAsNew\<lparr>filenames := Folder [] [''a''] 0\<rparr>) ''a'' [7] = Inl IndexError"
proof -
  let ?rom = "initAsNew\<lparr>filenames := Folder [] [''a''] 0\<rparr>"
  have i: "idOf (filenames ?rom) ''a'' = Inr (Some 0)"
    by (simp add: idOf_eq pathPieces_def)
  have f: "rom_files ?rom = []"
    by (simp add: initAsNew_def)
  have g: "getFileByName ?rom ''a'' = Inl IndexError"
    using i f by (simp add: getFileByName_def getitem_def py_index_def)
  have s: "setFileByName ?rom ''a'' [7] = Inl IndexError"
    using i f by (simp add: setFileByName_def setitem_def py_index_def)
  show ?thesis
    by (rule conjI [OF i conjI [OF f conjI [OF g s]]])
qed

section \<open>Decoding a ROM\<close>

subsection \<open>The header cursor reads the fields at their offsets\<close>

lemmas header_reader_defs =
  rbind_def rreturn_def readRaw_def read8_def read16_def read32_def assertOffset_def
  unpack_H_def unpack_I_def field8_def field16_def field32_def

lemma readHeader00_eq:
  "0x200 \<le> length d \<Longrightarrow>
   readHeader00 d 0x0 =
     Inr ((rstrip_zero (pyslice d 0x0 0xC),
           pyslice d 0xC 0x10,
           pyslice d 0x10 0x12,
           field8 d 0x12,
           field8 d 0x13,
           field8 d 0x14), 0x15)"
  by (simp add: readHeader00_def header_reader_defs)

lemma readHeader15_eq:
  "0x200 \<le> length d \<Longrightarrow>
   readHeader15 d 0x15 =
     Inr ((field8 d 0x15,
           field8 d 0x16,
           field8 d 0x17,
           field8 d 0x18,
           field8 d 0x19,
           field8 d 0x1A,
           field8 d 0x1B,
           field8 d 0x1C,
           field8 d 0x1D,
           field8 d 0x1E,
           field8 d 0x1F), 0x20)"
  by (simp add: readHeader15_def header_reader_defs)

lemma readHeader20_eq:
  "0x200 \<le> length d \<Longrightarrow>
   readHeader20 d 0x20 =
     Inr ((field32 d 0x20,
           field32 d 0x24,
           field32 d 0x28,
           field32 d 0x2C,
           field32 d 0x30,
           field32 d 0x34,
           field32 d 0x38,
           field32 d 0x3C), 0x40)"
  by (simp add: readHeader20_def header_reader_defs)

lemma readHeader40_eq:
  "0x200 \<le> length d \<Longrightarrow>
   readHeader40 d 0x40 =
     Inr ((field32 d 0x40,
           field32 d 0x44,
           field32 d 0x48,
           field32 d 0x4C,
           field32 d 0x50,
           field32 d 0x54,
           field32 d 0x58,
           field32 d 0x5C), 0x60)"
  by (simp add: readHeader40_def header_reader_defs)

lemma readHeader60_eq:
  "0x200 \<le> length d \<Longrightarrow>
   readHeader60 d 0x60 =
     Inr ((field32 d 0x60,
           field32 d 0x64,
           field32 d 0x68,
           field16 d 0x6C,
           field16 d 0x6E), 0x70)"
  by (simp add: readHeader60_def header_reader_defs)

lemma readHeader70_eq:
  "0x200 \<le> length d \<Longrightarrow>
   readHeader70 d 0x70 =
     Inr ((field32 d 0x70,
           field32 d 0x74,
           pyslice d 0x78 0x80), 0x80)"
  by (simp add: readHeader70_def header_reader_defs)

lemma readHeader80_eq:
  "0x200 \<le> length d \<Longrightarrow>
   readHeader80 d 0x80 =
     Inr ((field32 d 0x80,
           field32 d 0x84,
           pyslice d 0x88 0xC0,
           pyslice d 0xC0 0x15C,
           field16 d 0x15C,
           field16 d 0x15E), 0x160)"
  by (simp add: readHeader80_def header_reader_defs)

lemma readHeader160_eq:
  "0x200 \<le> length d \<Longrightarrow>
   readHeader160 d 0x160 =
     Inr ((field32 d 0x160,
           field32 d 0x164,
           field32 d 0x168,
           pyslice d 0x16C 0x200), 0x200)"
  by (simp add: readHeader160_def header_reader_defs)

lemma readHeader_eq:
  "0x200 \<le> length d \<Longrightarrow>
   readHeader d 0 = Inr ((headerFieldsAt d, headerLocalsAt d), 0x200)"
  by (simp add: readHeader_def rbind_def rreturn_def headerFieldsAt_def headerLocalsAt_def
      readHeader00_eq [simplified] readHeader15_eq readHeader20_eq readHeader40_eq readHeader60_eq
      readHeader70_eq readHeader80_eq readHeader160_eq)

subsection \<open>The file allocation table\<close>

lemma readFat_eq:
  "(\<And>i. i \<in> set idxs \<Longrightarrow> 8 * i + 8 \<le> length fat) \<Longrightarrow>
   readFat data fat idxs (fl, o2i) =
     Inr (fl @ map (\<lambda>i. pyslice data (field32 fat (8 * i)) (field32 fat (8 * i + 4))) idxs,
          fold (\<lambda>i. AList.update (field32 fat (8 * i)) i) idxs o2i)"
proof (induction idxs arbitrary: fl o2i)
  case Nil
  show ?case by simp
next
  case (Cons i idxs)
  have "8 * i + 8 \<le> length fat"
    by (rule Cons.prems) simp
  then have u: "unpack_II fat (8 * i) = Inr (field32 fat (8 * i), field32 fat (8 * i + 4))"
    by (simp add: unpack_II_def field32_def add.assoc)
  have "\<And>j. j \<in> set idxs \<Longrightarrow> 8 * j + 8 \<le> length fat"
    by (rule Cons.prems) simp
  from Cons.IH [OF this] u show ?case
    by simp
qed

lemma lookupSorted_eq:
  "set ks \<subseteq> fst ` set al \<Longrightarrow>
   lookupSorted al ks ids = Inr (ids @ map (\<lambda>k. the (map_of al k)) ks)"
proof (induction ks arbitrary: ids)
  case Nil
  show ?case by simp
next
  case (Cons k ks)
  then have "k \<in> fst ` set al" by simp
  then obtain v where v: "map_of al k = Some v"
    by (metis domD dom_map_of_conv_image_fst)
  from Cons have "set ks \<subseteq> fst ` set al" by simp
  from Cons.IH [OF this] v show ?case by simp
qed

lemma readFiles_eq: "readFiles data fat = Inr (fatFiles data fat, fatSortedIds fat)"
proof (cases "fat = []")
  case True
  then show ?thesis
    by (simp add: readFiles_def fatFiles_def fatSortedIds_def offset2IdOf_def)
next
  case False
  have a: "readFat data fat [0 ..< length fat div 8] ([], []) = Inr (fatFiles data fat, offset2IdOf fat)"
    unfolding fatFiles_def offset2IdOf_def
    by (subst readFat_eq) auto
  have b: "lookupSorted (offset2IdOf fat) (sort (map fst (offset2IdOf fat))) [] = Inr (fatSortedIds fat)"
    unfolding fatSortedIds_def
    by (subst lookupSorted_eq) auto
  from False a b show ?thesis
    by (simp add: readFiles_def)
qed

lemma map_of_fold_update:
  "map_of (fold (\<lambda>i. AList.update (f i) i) [0 ..< n] []) k = Some i
     \<longleftrightarrow> i < n \<and> f i = k \<and> (\<forall>j < n. f j = k \<longrightarrow> j \<le> i)"
proof (induction n arbitrary: i)
  case 0
  show ?case by simp
next
  case (Suc n)
  show ?case
  proof (cases "f n = k")
    case True
    have "i = n \<longleftrightarrow> i < Suc n \<and> f i = k \<and> (\<forall>j < Suc n. f j = k \<longrightarrow> j \<le> i)"
      using True by (auto simp: less_Suc_eq)
    with True show ?thesis
      by (auto simp: update_conv')
  next
    case False
    have "(i < n \<and> f i = k \<and> (\<forall>j < n. f j = k \<longrightarrow> j \<le> i))
        \<longleftrightarrow> (i < Suc n \<and> f i = k \<and> (\<forall>j < Suc n. f j = k \<longrightarrow> j \<le> i))"
      using False by (auto simp: less_Suc_eq)
    with False Suc show ?thesis
      by (simp add: update_conv')
  qed
qed

lemma keys_fold_update:
  "fst ` set (fold (\<lambda>i. AList.update (f i) i) [0 ..< n] []) = f ` {0 ..< n}"
  by (induction n) (auto simp: dom_update atLeast0_lessThan_Suc)

lemma distinct_fold_update:
  "distinct (map fst (fold (\<lambda>i. AList.update (f i) i) [0 ..< n] []))"
  by (induction n) (auto simp: distinct_update)

lemma offset2IdOf_lookup:
  "map_of (offset2IdOf fat) k = Some i
     \<longleftrightarrow> i < length fat div 8 \<and> field32 fat (8 * i) = k
         \<and> (\<forall>j < length fat div 8. field32 fat (8 * j) = k \<longrightarrow> j \<le> i)"
  unfolding offset2IdOf_def by (rule map_of_fold_update)

lemma offset2IdOf_key:
  assumes "k \<in> set (map fst (offset2IdOf fat))"
  shows "\<exists>i. map_of (offset2IdOf fat) k = Some i"
proof -
  from assms have "k \<in> fst ` set (offset2IdOf fat)" by simp
  then show ?thesis
    by (metis domD dom_map_of_conv_image_fst)
qed

lemma fatSortedIds_starts:
  "map (\<lambda>i. field32 fat (8 * i)) (fatSortedIds fat) = sort (map fst (offset2IdOf fat))"
proof -
  have "\<And>k. k \<in> set (sort (map fst (offset2IdOf fat))) \<Longrightarrow>
          field32 fat (8 * the (map_of (offset2IdOf fat) k)) = k"
  proof -
    fix k
    assume "k \<in> set (sort (map fst (offset2IdOf fat)))"
    then have "k \<in> set (map fst (offset2IdOf fat))" by simp
    from offset2IdOf_key [OF this] obtain i where i: "map_of (offset2IdOf fat) k = Some i" ..
    then have "field32 fat (8 * i) = k"
      by (simp add: offset2IdOf_lookup)
    with i show "field32 fat (8 * the (map_of (offset2IdOf fat) k)) = k" by simp
  qed
  then have "map (\<lambda>k. field32 fat (8 * the (map_of (offset2IdOf fat) k)))
               (sort (map fst (offset2IdOf fat))) = sort (map fst (offset2IdOf fat))"
    by (rule map_idI)
  then show ?thesis
    unfolding fatSortedIds_def map_map comp_def .
qed

lemma fatSortedIds_strict:
  "sorted_wrt (<) (map (\<lambda>i. field32 fat (8 * i)) (fatSortedIds fat))"
proof -
  have "distinct (map fst (offset2IdOf fat))"
    unfolding offset2IdOf_def by (rule distinct_fold_update)
  then have "sorted (sort (map fst (offset2IdOf fat))) \<and> distinct (sort (map fst (offset2IdOf fat)))"
    by simp
  then show ?thesis
    unfolding fatSortedIds_starts by (simp add: strict_sorted_iff)
qed

lemma set_fatSortedIds:
  "set (fatSortedIds fat) =
     {i. i < length fat div 8
         \<and> (\<forall>j < length fat div 8. field32 fat (8 * j) = field32 fat (8 * i) \<longrightarrow> j \<le> i)}"
proof (intro set_eqI iffI)
  fix i
  assume "i \<in> set (fatSortedIds fat)"
  then obtain k where k: "k \<in> set (map fst (offset2IdOf fat))"
      and i: "i = the (map_of (offset2IdOf fat) k)"
    by (auto simp: fatSortedIds_def)
  from offset2IdOf_key [OF k] obtain i' where i': "map_of (offset2IdOf fat) k = Some i'" ..
  with i have "map_of (offset2IdOf fat) k = Some i" by simp
  then show "i \<in> {i. i < length fat div 8
         \<and> (\<forall>j < length fat div 8. field32 fat (8 * j) = field32 fat (8 * i) \<longrightarrow> j \<le> i)}"
    by (auto simp: offset2IdOf_lookup)
next
  fix i
  assume "i \<in> {i. i < length fat div 8
         \<and> (\<forall>j < length fat div 8. field32 fat (8 * j) = field32 fat (8 * i) \<longrightarrow> j \<le> i)}"
  then have m: "map_of (offset2IdOf fat) (field32 fat (8 * i)) = Some i"
    by (simp add: offset2IdOf_lookup)
  then have "field32 fat (8 * i) \<in> set (map fst (offset2IdOf fat))"
    by (metis map_of_SomeD fst_conv image_eqI set_map)
  then have "the (map_of (offset2IdOf fat) (field32 fat (8 * i))) \<in> set (fatSortedIds fat)"
    unfolding fatSortedIds_def by simp
  with m show "i \<in> set (fatSortedIds fat)" by simp
qed

lemma length_fatFiles: "length (fatFiles data fat) = length fat div 8"
  by (simp add: fatFiles_def)

lemma nth_fatFiles:
  "i < length fat div 8 \<Longrightarrow>
   fatFiles data fat ! i = pyslice data (field32 fat (8 * i)) (field32 fat (8 * i + 4))"
  by (simp add: fatFiles_def)

lemma fatSortedIds_example:
  assumes "map (\<lambda>i. field32 fat (8 * i)) [0 ..< length fat div 8] = [100, 50, 200]"
  shows "fatSortedIds fat = [1, 0, 2]"
proof -
  from assms have "length (map (\<lambda>i. field32 fat (8 * i)) [0 ..< length fat div 8]) = 3"
    by simp
  then have n: "length fat div 8 = 3" by simp
  have u: "[0 ..< 3] = [0, 1, 2]"
    by (simp add: upt_rec)
  from assms have s: "field32 fat 0 = 100" "field32 fat 8 = 50" "field32 fat 16 = 200"
    unfolding n u by simp_all
  have "offset2IdOf fat = [(100, 0), (50, 1), (200, 2)]"
    unfolding offset2IdOf_def n u using s by simp
  then show ?thesis
    unfolding fatSortedIds_def by simp
qed

subsection \<open>The decoded ROM\<close>


lemma length_padded: "length (padded data) = max 0x200 (length data)"
  by (simp add: padded_def)

lemma padded_ge: "0x200 \<le> length (padded data)"
  by (simp add: padded_def)

lemma padded_long: "0x200 \<le> length data \<Longrightarrow> padded data = data"
  by (simp add: padded_def)

lemma extendData_eq: "extendData data = Inr (padded data)"
  by (simp add: extendData_def padded_def Let_def)

lemma resolveSigOffset_eq: "resolveSigOffset d (field32 d 0x80) = Inr (sigOffset d)"
  by (simp add: resolveSigOffset_def sigOffset_def unpack_I_def field32_def)

declare scanPostData.simps [simp del]

lemma headerFieldsAt_sel:
  "arm9Offset (headerFieldsAt d) = field32 d 0x20"
  "arm9Len (headerFieldsAt d) = field32 d 0x2C"
  "arm7Offset (headerFieldsAt d) = field32 d 0x30"
  "arm7Len (headerFieldsAt d) = field32 d 0x3C"
  "romSizeOrRsaSigOffset (headerFieldsAt d) = field32 d 0x80"
  by (simp_all add: headerFieldsAt_def)

lemma headerLocalsAt_sel:
  "fntOffset (headerLocalsAt d) = field32 d 0x40"
  "fntLen (headerLocalsAt d) = field32 d 0x44"
  "fatOffset (headerLocalsAt d) = field32 d 0x48"
  "fatLen (headerLocalsAt d) = field32 d 0x4C"
  "arm9OvTOffset (headerLocalsAt d) = field32 d 0x50"
  "arm9OvTLen (headerLocalsAt d) = field32 d 0x54"
  "arm7OvTOffset (headerLocalsAt d) = field32 d 0x58"
  "arm7OvTLen (headerLocalsAt d) = field32 d 0x5C"
  "iconBannerOffset (headerLocalsAt d) = field32 d 0x68"
  "debugRomOffset (headerLocalsAt d) = field32 d 0x160"
  "debugRomSize (headerLocalsAt d) = field32 d 0x164"
  by (simp_all add: headerLocalsAt_def)

lemma initFromData_eq:
  "initFromData depth data0 =
     (case (if fntRegion (padded data0) \<noteq> [] then load depth (fntRegion (padded data0))
            else Inr (Folder [] [] 0)) of
        Inl e \<Rightarrow> Inl e
      | Inr tree \<Rightarrow> Inr (decodedRom (padded data0) tree))"
proof -
  define d where "d = padded data0"
  have h: "readHeader d 0 = Inr ((headerFieldsAt d, headerLocalsAt d), 0x200)"
    unfolding d_def using padded_ge by (rule readHeader_eq)
  have s: "resolveSigOffset d (romSizeOrRsaSigOffset (headerFieldsAt d)) = Inr (sigOffset d)"
    using resolveSigOffset_eq [of d] by (simp only: headerFieldsAt_sel)
  have e: "extendData data0 = Inr d"
    unfolding d_def by (rule extendData_eq)
  show ?thesis
  proof (cases "if fntRegion d \<noteq> [] then load depth (fntRegion d) else Inr (Folder [] [] 0)")
    case (Inl err)
    then have "(if pyslice d (field32 d 0x40) (field32 d 0x40 + field32 d 0x44) \<noteq> []
                then load depth (pyslice d (field32 d 0x40) (field32 d 0x40 + field32 d 0x44))
                else Inr (Folder [] [] 0)) = Inl err"
      by (simp only: fntRegion_def)
    then have "initFromData depth data0 = Inl err"
      unfolding initFromData_def e sum.case h prod.case s Let_def headerLocalsAt_sel
      by (simp only: sum.case)
    with Inl show ?thesis
      unfolding d_def by (simp only: sum.case)
  next
    case (Inr tree)
    then have "(if pyslice d (field32 d 0x40) (field32 d 0x40 + field32 d 0x44) \<noteq> []
                then load depth (pyslice d (field32 d 0x40) (field32 d 0x40 + field32 d 0x44))
                else Inr (Folder [] [] 0)) = Inr tree"
      by (simp only: fntRegion_def)
    then have "initFromData depth data0 = Inr (decodedRom d tree)"
      unfolding initFromData_def e sum.case h prod.case s Let_def headerLocalsAt_sel
        headerFieldsAt_sel resolveSigOffset_eq readFiles_eq decodedRom_def fatRegion_def
        ICON_BANNER_LEN_def
      by (simp only: sum.case prod.case)
    with Inr show ?thesis
      unfolding d_def by (simp only: sum.case)
  qed
qed

subsection \<open>The fields of the decoded ROM\<close>

lemma decodedRom_sel:
  "headerOffset (decodedRom d tree) = 0x200"
  "pad200 (decodedRom d tree) = pyslice d 0x200 (min (field32 d 0x20) (length d))"
  "rsaSignature (decodedRom d tree) =
     (if sigOffset d \<noteq> 0 then pyslice d (sigOffset d) (min (length d) (sigOffset d + 0x88))
      else [])"
  "arm9 (decodedRom d tree) = pyslice d (field32 d 0x20) (field32 d 0x20 + field32 d 0x2C)"
  "arm7 (decodedRom d tree) = pyslice d (field32 d 0x30) (field32 d 0x30 + field32 d 0x3C)"
  "arm9OverlayTable (decodedRom d tree) = pyslice d (field32 d 0x50) (field32 d 0x50 + field32 d 0x54)"
  "arm7OverlayTable (decodedRom d tree) = pyslice d (field32 d 0x58) (field32 d 0x58 + field32 d 0x5C)"
  "iconBanner (decodedRom d tree) =
     (if field32 d 0x68 \<noteq> 0 then pyslice d (field32 d 0x68) (field32 d 0x68 + 0x840) else [])"
  "debugRom (decodedRom d tree) =
     (if field32 d 0x160 \<noteq> 0
      then pyslice d (field32 d 0x160) (field32 d 0x160 + field32 d 0x164) else [])"
  "arm9PostData (decodedRom d tree) = scanPostData d (field32 d 0x20 + field32 d 0x2C) []"
  "filenames (decodedRom d tree) = tree"
  "rom_files (decodedRom d tree) = fatFiles d (fatRegion d)"
  "sortedFileIds (decodedRom d tree) = fatSortedIds (fatRegion d)"
  by (simp_all add: decodedRom_def HeaderFields.extend_def NintendoDSRom.fields_def)

lemma decodedRom_header:
  "HeaderFields.truncate (decodedRom d tree) = headerFieldsAt d"
  by (simp add: decodedRom_def HeaderFields.extend_def NintendoDSRom.fields_def
      HeaderFields.truncate_def headerFieldsAt_def)

lemma initFromData_InrD:
  assumes "initFromData depth data0 = Inr r"
  shows "\<exists>tree. r = decodedRom (padded data0) tree"
proof (cases "if fntRegion (padded data0) \<noteq> [] then load depth (fntRegion (padded data0))
              else Inr (Folder [] [] 0)")
  case (Inl e)
  then have "initFromData depth data0 = Inl e"
    by (simp only: initFromData_eq sum.case)
  with assms show ?thesis by simp
next
  case (Inr tree)
  then have "initFromData depth data0 = Inr (decodedRom (padded data0) tree)"
    by (simp only: initFromData_eq sum.case)
  with assms have "r = decodedRom (padded data0) tree" by simp
  then show ?thesis by (rule exI)
qed

lemma initFromData_InlD:
  assumes "initFromData depth data0 = Inl e"
  shows "fntRegion (padded data0) \<noteq> [] \<and> load depth (fntRegion (padded data0)) = Inl e"
proof (cases "fntRegion (padded data0) = []")
  case True
  then have "initFromData depth data0 = Inr (decodedRom (padded data0) (Folder [] [] 0))"
    by (simp only: initFromData_eq simp_thms if_False sum.case)
  with assms show ?thesis by simp
next
  case False
  then have "initFromData depth data0 =
      (case load depth (fntRegion (padded data0)) of Inl e \<Rightarrow> Inl e
       | Inr tree \<Rightarrow> Inr (decodedRom (padded data0) tree))"
    by (simp only: initFromData_eq simp_thms if_True)
  with assms False show ?thesis
    by (cases "load depth (fntRegion (padded data0))") simp_all
qed

lemma initFromData_no_fnt:
  assumes "fntRegion (padded data0) = []"
  shows "initFromData depth data0 = Inr (decodedRom (padded data0) (Folder [] [] 0))"
  using assms by (simp only: initFromData_eq simp_thms if_False sum.case)

lemma initFromData_fnt:
  assumes "fntRegion (padded data0) \<noteq> []" and "load depth (fntRegion (padded data0)) = Inr tree"
  shows "initFromData depth data0 = Inr (decodedRom (padded data0) tree)"
  using assms by (simp only: initFromData_eq simp_thms if_True sum.case)


subsection \<open>Icon banner and debug ROM\<close>

lemma length_pyslice: "length (pyslice xs a b) = min b (length xs) - a"
  by (simp add: pyslice_def min.commute)

lemma le_nat_zeros: "le_nat (replicate n 0) = 0"
  by (induction n) simp_all

lemma header_offsets:
  assumes "0x200 \<le> length d"
  shows "\<exists>h l. readHeader d 0 = Inr ((h, l), 0x200)
           \<and> arm9Offset h = field32 d 0x20 \<and> arm9Len h = field32 d 0x2C
           \<and> romSizeOrRsaSigOffset h = field32 d 0x80
           \<and> fatOffset l = field32 d 0x48 \<and> fatLen l = field32 d 0x4C
           \<and> iconBannerOffset l = field32 d 0x68
           \<and> debugRomOffset l = field32 d 0x160 \<and> debugRomSize l = field32 d 0x164"
  using readHeader_eq [OF assms] by (simp add: headerFieldsAt_sel headerLocalsAt_sel)

text \<open>
  Claim C9 (icon banner and debug ROM), as amended. For a buffer that decodes, with \<open>d\<close>
  the buffer after padding: the header words at \<open>0x68\<close>, \<open>0x160\<close> and \<open>0x164\<close> are the
  offset of the icon banner and the offset and size of the debug ROM. When its offset is
  zero the field is the empty byte string. Otherwise it is the slice of \<open>d\<close> that starts
  at the offset, of \<open>0x840\<close> bytes for the icon banner and of the declared size for the
  debug ROM; a slice is cut at the end of the buffer, so the field holds the bytes that
  \<open>d\<close> has from the offset on when these are fewer.
\<close>

theorem icon_banner_debug_rom:
  assumes "initFromData depth data0 = Inr r" and "d = padded data0"
  shows "(\<exists>h l. readHeader d 0 = Inr ((h, l), 0x200)
            \<and> iconBannerOffset l = field32 d 0x68
            \<and> debugRomOffset l = field32 d 0x160 \<and> debugRomSize l = field32 d 0x164)
       \<and> iconBanner r =
           (if field32 d 0x68 = 0 then []
            else pyslice d (field32 d 0x68) (field32 d 0x68 + 0x840))
       \<and> length (iconBanner r) =
           (if field32 d 0x68 = 0 then 0 else min 0x840 (length d - field32 d 0x68))
       \<and> debugRom r =
           (if field32 d 0x160 = 0 then []
            else pyslice d (field32 d 0x160) (field32 d 0x160 + field32 d 0x164))
       \<and> length (debugRom r) =
           (if field32 d 0x160 = 0 then 0
            else min (field32 d 0x164) (length d - field32 d 0x160))"
proof -
  from initFromData_InrD [OF assms(1)] obtain tree where r: "r = decodedRom d tree"
    unfolding assms(2) ..
  have "0x200 \<le> length d"
    unfolding assms(2) by (rule padded_ge)
  from header_offsets [OF this]
  have h: "\<exists>h l. readHeader d 0 = Inr ((h, l), 0x200)
            \<and> iconBannerOffset l = field32 d 0x68
            \<and> debugRomOffset l = field32 d 0x160 \<and> debugRomSize l = field32 d 0x164"
    by blast
  have i: "iconBanner r =
           (if field32 d 0x68 = 0 then []
            else pyslice d (field32 d 0x68) (field32 d 0x68 + 0x840))"
    unfolding r by (simp add: decodedRom_sel)
  have g: "debugRom r =
           (if field32 d 0x160 = 0 then []
            else pyslice d (field32 d 0x160) (field32 d 0x160 + field32 d 0x164))"
    unfolding r by (simp add: decodedRom_sel)
  have il: "length (iconBanner r) =
           (if field32 d 0x68 = 0 then 0 else min 0x840 (length d - field32 d 0x68))"
    unfolding i by (auto simp: length_pyslice min_def)
  have gl: "length (debugRom r) =
           (if field32 d 0x160 = 0 then 0
            else min (field32 d 0x164) (length d - field32 d 0x160))"
    unfolding g by (auto simp: length_pyslice min_def)
  show ?thesis
    by (rule conjI [OF h conjI [OF i conjI [OF il conjI [OF g gl]]]])
qed

lemmas buffer_eval = padded_def pyslice_def field32_def le_nat_zeros

text \<open>
  A buffer of \<open>0x850\<close> bytes with the icon banner at \<open>0x10\<close> and a debug ROM of 8 bytes
  at \<open>0x20\<close>: the banner has all its \<open>0x840\<close> bytes.
\<close>

theorem icon_banner_debug_rom_witness:
  "initFromData 1 fullBannerRom = Inr (decodedRom fullBannerRom (Folder [] [] 0))
   \<and> length fullBannerRom = 0x850
   \<and> iconBanner (decodedRom fullBannerRom (Folder [] [] 0)) = drop 0x10 fullBannerRom
   \<and> length (iconBanner (decodedRom fullBannerRom (Folder [] [] 0))) = 0x840
   \<and> debugRom (decodedRom fullBannerRom (Folder [] [] 0)) = replicate 8 0"
proof -
  let ?r = "decodedRom fullBannerRom (Folder [] [] 0)"
  have len: "length fullBannerRom = 0x850"
    by (simp add: fullBannerRom_def)
  have pad: "padded fullBannerRom = fullBannerRom"
    by (rule padded_long) (simp add: len)
  have fnt: "fntRegion (padded fullBannerRom) = []"
    unfolding pad by (simp add: fntRegion_def fullBannerRom_def pyslice_def field32_def le_nat_zeros)
  have ok: "initFromData 1 fullBannerRom = Inr ?r"
    using initFromData_no_fnt [OF fnt, of 1] unfolding pad .
  have f68: "field32 fullBannerRom 0x68 = 0x10"
    by (simp add: fullBannerRom_def pyslice_def field32_def le_nat_zeros)
  have f160: "field32 fullBannerRom 0x160 = 0x20"
    by (simp add: fullBannerRom_def pyslice_def field32_def le_nat_zeros)
  have f164: "field32 fullBannerRom 0x164 = 8"
    by (simp add: fullBannerRom_def pyslice_def field32_def le_nat_zeros)
  have sl: "pyslice fullBannerRom 0x10 (0x10 + 0x840) = drop 0x10 fullBannerRom"
    by (simp add: pyslice_def len)
  have sd: "pyslice fullBannerRom 0x20 (0x20 + 8) = replicate 8 0"
    by (simp add: fullBannerRom_def pyslice_def)
  note t = icon_banner_debug_rom [OF ok pad [symmetric], THEN conjunct2]
  from t [THEN conjunct1] have i: "iconBanner ?r = drop 0x10 fullBannerRom"
    unfolding f68 sl by simp
  from t [THEN conjunct2, THEN conjunct1] have il: "length (iconBanner ?r) = 0x840"
    unfolding f68 len by simp
  from t [THEN conjunct2, THEN conjunct2, THEN conjunct1] have g: "debugRom ?r = replicate 8 0"
    unfolding f160 f164 sd by simp
  show ?thesis
    by (rule conjI [OF ok conjI [OF len conjI [OF i conjI [OF il g]]]])
qed

text \<open>
  A buffer of \<open>0x69\<close> bytes that declares the icon banner at \<open>0x10\<close>: after padding the
  buffer ends at \<open>0x200\<close>, and the banner has \<open>0x1F0\<close> bytes, not \<open>0x840\<close>.
\<close>

theorem icon_banner_clipped:
  "initFromData 1 shortBannerRom = Inr (decodedRom (padded shortBannerRom) (Folder [] [] 0))
   \<and> length (padded shortBannerRom) = 0x200
   \<and> field32 (padded shortBannerRom) 0x68 = 0x10
   \<and> iconBanner (decodedRom (padded shortBannerRom) (Folder [] [] 0))
       = replicate 0x58 0 @ [0x10] @ replicate 0x197 0
   \<and> length (iconBanner (decodedRom (padded shortBannerRom) (Folder [] [] 0))) = 0x1F0"
proof -
  let ?r = "decodedRom (padded shortBannerRom) (Folder [] [] 0)"
  have ok: "initFromData 1 shortBannerRom = Inr ?r"
    by (rule initFromData_no_fnt) (simp add: fntRegion_def shortBannerRom_def buffer_eval)
  have len: "length (padded shortBannerRom) = 0x200"
    by (simp add: padded_def shortBannerRom_def)
  have f68: "field32 (padded shortBannerRom) 0x68 = 0x10"
    by (simp add: shortBannerRom_def buffer_eval)
  have sl: "pyslice (padded shortBannerRom) 0x10 (0x10 + 0x840)
              = replicate 0x58 0 @ [0x10] @ replicate 0x197 0"
    by (simp add: shortBannerRom_def padded_def pyslice_def)
  have i: "iconBanner ?r = replicate 0x58 0 @ [0x10] @ replicate 0x197 0"
    unfolding decodedRom_sel f68 sl by simp
  have il: "length (iconBanner ?r) = 0x1F0"
    unfolding i by simp
  show ?thesis
    by (rule conjI [OF ok conjI [OF len conjI [OF f68 conjI [OF i il]]]])
qed


subsection \<open>The records after the ARM9 region\<close>

lemma magic_in_buffer:
  assumes "pyslice d off (off + 4) = postDataMagic"
  shows "off + 4 \<le> length d"
proof -
  from assms have "length (pyslice d off (off + 4)) = 4"
    by (simp add: postDataMagic_def)
  then show ?thesis
    by (simp add: length_pyslice)
qed

lemma scanPostData_acc: "scanPostData d off acc = acc @ scanPostData d off []"
proof (induction "length d - off" arbitrary: off acc rule: less_induct)
  case less
  show ?case
  proof (cases "pyslice d off (off + 4) = postDataMagic")
    case True
    then have "off + 4 \<le> length d"
      by (rule magic_in_buffer)
    then have m: "length d - (off + 12) < length d - off"
      by simp
    have "scanPostData d off acc = scanPostData d (off + 12) (acc @ pyslice d off (off + 12))"
      using True by (subst scanPostData.simps) simp
    also have "\<dots> = (acc @ pyslice d off (off + 12)) @ scanPostData d (off + 12) []"
      using m by (rule less)
    also have "\<dots> = acc @ (([] @ pyslice d off (off + 12)) @ scanPostData d (off + 12) [])"
      by simp
    also have "\<dots> = acc @ scanPostData d (off + 12) ([] @ pyslice d off (off + 12))"
      using less [OF m, of "[] @ pyslice d off (off + 12)"] by simp
    also have "\<dots> = acc @ scanPostData d off []"
      using True by (subst (2) scanPostData.simps) simp
    finally show ?thesis .
  next
    case False
    then show ?thesis
      by (subst (1 2) scanPostData.simps) simp
  qed
qed

lemma scanPostData_step:
  "scanPostData d off [] =
     (if pyslice d off (off + 4) = postDataMagic
      then pyslice d off (off + 12) @ scanPostData d (off + 12) []
      else [])"
  by (subst scanPostData.simps, subst scanPostData_acc) simp

lemma concat_map_upt_Suc:
  "concat (map f [0 ..< Suc n]) = f 0 @ concat (map (\<lambda>k. f (Suc k)) [0 ..< n])"
proof -
  have "[0 ..< Suc n] = 0 # map Suc [0 ..< n]"
    by (simp add: upt_conv_Cons map_Suc_upt del: upt_Suc)
  then show ?thesis
    by (simp add: comp_def del: upt_Suc)
qed

lemma scanPostData_records:
  "\<exists>n. (\<forall>k < n. pyslice d (off + 12 * k) (off + 12 * k + 4) = postDataMagic)
       \<and> pyslice d (off + 12 * n) (off + 12 * n + 4) \<noteq> postDataMagic
       \<and> scanPostData d off [] =
           concat (map (\<lambda>k. pyslice d (off + 12 * k) (off + 12 * k + 12)) [0 ..< n])
       \<and> (off + 12 * n \<le> length d \<longrightarrow> length (scanPostData d off []) = 12 * n)"
proof (induction "length d - off" arbitrary: off rule: less_induct)
  case less
  show ?case
  proof (cases "pyslice d off (off + 4) = postDataMagic")
    case False
    then have "scanPostData d off [] = []"
      by (subst scanPostData_step) simp
    with False show ?thesis
      by (intro exI [of _ 0]) simp
  next
    case True
    then have "off + 4 \<le> length d"
      by (rule magic_in_buffer)
    then have "length d - (off + 12) < length d - off"
      by simp
    from less [OF this] obtain n where
      a: "\<forall>k < n. pyslice d (off + 12 + 12 * k) (off + 12 + 12 * k + 4) = postDataMagic" and
      b: "pyslice d (off + 12 + 12 * n) (off + 12 + 12 * n + 4) \<noteq> postDataMagic" and
      c: "scanPostData d (off + 12) [] =
           concat (map (\<lambda>k. pyslice d (off + 12 + 12 * k) (off + 12 + 12 * k + 12)) [0 ..< n])" and
      l: "off + 12 + 12 * n \<le> length d \<longrightarrow> length (scanPostData d (off + 12) []) = 12 * n"
      by blast
    have s: "scanPostData d off [] = pyslice d off (off + 12) @ scanPostData d (off + 12) []"
      using True by (subst scanPostData_step) simp
    have a': "\<forall>k < Suc n. pyslice d (off + 12 * k) (off + 12 * k + 4) = postDataMagic"
    proof (intro allI impI)
      fix k
      assume "k < Suc n"
      show "pyslice d (off + 12 * k) (off + 12 * k + 4) = postDataMagic"
      proof (cases k)
        case 0
        with True show ?thesis by simp
      next
        case (Suc k')
        with \<open>k < Suc n\<close> have "k' < n" by simp
        with a have "pyslice d (off + 12 + 12 * k') (off + 12 + 12 * k' + 4) = postDataMagic"
          by blast
        with Suc show ?thesis by (simp add: add.assoc)
      qed
    qed
    have b': "pyslice d (off + 12 * Suc n) (off + 12 * Suc n + 4) \<noteq> postDataMagic"
      using b by (simp add: add.assoc)
    have c': "scanPostData d off [] =
           concat (map (\<lambda>k. pyslice d (off + 12 * k) (off + 12 * k + 12)) [0 ..< Suc n])"
      unfolding s c concat_map_upt_Suc by (simp add: add.assoc)
    have l': "off + 12 * Suc n \<le> length d \<longrightarrow> length (scanPostData d off []) = 12 * Suc n"
      using l unfolding s by (simp add: length_pyslice add.assoc)
    from a' b' c' l' show ?thesis
      by (intro exI [of _ "Suc n"] conjI)
  qed
qed

lemma pyslice_append_at:
  "pyslice (pre @ xs) (length pre) (length pre + n) = take n xs"
  by (simp add: pyslice_def)

lemma scanPostData_two_records:
  assumes "length r1 = 12" "take 4 r1 = postDataMagic"
    and "length r2 = 12" "take 4 r2 = postDataMagic"
    and "take 4 rest \<noteq> postDataMagic"
  shows "scanPostData (pre @ r1 @ r2 @ rest) (length pre) [] = r1 @ r2"
proof -
  let ?d = "pre @ r1 @ r2 @ rest"
  have m1: "pyslice ?d (length pre) (length pre + 4) = postDataMagic"
    unfolding pyslice_append_at using assms(1,2) by simp
  have s1: "pyslice ?d (length pre) (length pre + 12) = r1"
    unfolding pyslice_append_at using assms(1) by simp
  have "pyslice ((pre @ r1) @ r2 @ rest) (length (pre @ r1)) (length (pre @ r1) + 4) = take 4 (r2 @ rest)"
    by (rule pyslice_append_at)
  then have m2: "pyslice ?d (length pre + 12) (length pre + 12 + 4) = postDataMagic"
    using assms(1,3,4) by simp
  have "pyslice ((pre @ r1) @ r2 @ rest) (length (pre @ r1)) (length (pre @ r1) + 12) = take 12 (r2 @ rest)"
    by (rule pyslice_append_at)
  then have s2: "pyslice ?d (length pre + 12) (length pre + 12 + 12) = r2"
    using assms(1,3) by simp
  have "pyslice ((pre @ r1 @ r2) @ rest) (length (pre @ r1 @ r2)) (length (pre @ r1 @ r2) + 4) = take 4 rest"
    by (rule pyslice_append_at)
  then have m3: "pyslice ?d (length pre + 12 + 12) (length pre + 12 + 12 + 4) \<noteq> postDataMagic"
    using assms(1,3,5) by (simp add: add.assoc)
  have "scanPostData ?d (length pre + 12 + 12) [] = []"
    using m3 by (subst scanPostData_step) (simp only: if_False simp_thms)
  then have "scanPostData ?d (length pre + 12) [] = r2"
    using m2 s2 by (subst scanPostData_step) (simp only: if_True append_Nil2 simp_thms)
  then show ?thesis
    using m1 s1 by (subst scanPostData_step) (simp only: if_True simp_thms)
qed

lemma scanPostData_at_end:
  assumes "length d \<le> off"
  shows "scanPostData d off [] = []"
proof -
  from assms have "pyslice d off (off + 4) = []"
    by (simp add: pyslice_def)
  then show ?thesis
    by (subst scanPostData_step) (simp add: postDataMagic_def)
qed

text \<open>
  Claim C7 (the scan after the ARM9 region), as amended. For a buffer that decodes, with
  \<open>d\<close> the buffer after padding, the scan starts at \<open>e\<close>, the end of the ARM9 region
  that the header declares. There is a number \<open>n\<close> of records: the magic is at
  \<open>e + 12 k\<close> for every \<open>k < n\<close> and not at \<open>e + 12 n\<close>, and \<^verbatim>\<open>arm9PostData\<close> is
  the slices \<open>d[e + 12 k : e + 12 k + 12]\<close> for \<open>k < n\<close>, one after the other. Every
  record before the last has 12 bytes; the last has 12 bytes when the buffer reaches
  \<open>e + 12 n\<close>, and the bytes left in the buffer otherwise. Two records of 12 bytes with
  the magic, followed by bytes that do not start with it, give these two records; an ARM9
  region that ends at or after the end of the buffer gives none.
\<close>

theorem post_data_scan:
  assumes "initFromData depth data0 = Inr r"
    and "d = padded data0"
    and "e = field32 d 0x20 + field32 d 0x2C"
  shows "(\<exists>h l. readHeader d 0 = Inr ((h, l), 0x200) \<and> arm9Offset h + arm9Len h = e)
       \<and> (\<exists>n. (\<forall>k < n. pyslice d (e + 12 * k) (e + 12 * k + 4) = postDataMagic)
              \<and> pyslice d (e + 12 * n) (e + 12 * n + 4) \<noteq> postDataMagic
              \<and> arm9PostData r =
                  concat (map (\<lambda>k. pyslice d (e + 12 * k) (e + 12 * k + 12)) [0 ..< n])
              \<and> (\<forall>k. Suc k < n \<longrightarrow> length (pyslice d (e + 12 * k) (e + 12 * k + 12)) = 12)
              \<and> (e + 12 * n \<le> length d \<longrightarrow> length (arm9PostData r) = 12 * n))
       \<and> (d = pre @ r1 @ r2 @ rest \<and> length pre = e
            \<and> length r1 = 12 \<and> take 4 r1 = postDataMagic
            \<and> length r2 = 12 \<and> take 4 r2 = postDataMagic
            \<and> take 4 rest \<noteq> postDataMagic
            \<longrightarrow> arm9PostData r = r1 @ r2)
       \<and> (length d \<le> e \<longrightarrow> arm9PostData r = [])"
proof -
  from initFromData_InrD [OF assms(1)] obtain tree where r: "r = decodedRom d tree"
    unfolding assms(2) ..
  have p: "arm9PostData r = scanPostData d e []"
    unfolding r assms(3) by (simp add: decodedRom_sel)
  have "0x200 \<le> length d"
    unfolding assms(2) by (rule padded_ge)
  from header_offsets [OF this]
  have h: "\<exists>h l. readHeader d 0 = Inr ((h, l), 0x200) \<and> arm9Offset h + arm9Len h = e"
    unfolding assms(3) by auto
  from scanPostData_records [of d e] obtain n where
    a: "\<forall>k < n. pyslice d (e + 12 * k) (e + 12 * k + 4) = postDataMagic" and
    b: "pyslice d (e + 12 * n) (e + 12 * n + 4) \<noteq> postDataMagic" and
    c: "scanPostData d e [] =
          concat (map (\<lambda>k. pyslice d (e + 12 * k) (e + 12 * k + 12)) [0 ..< n])" and
    l: "e + 12 * n \<le> length d \<longrightarrow> length (scanPostData d e []) = 12 * n"
    by blast
  have f: "\<forall>k. Suc k < n \<longrightarrow> length (pyslice d (e + 12 * k) (e + 12 * k + 12)) = 12"
  proof (intro allI impI)
    fix k
    assume "Suc k < n"
    with a have "pyslice d (e + 12 * Suc k) (e + 12 * Suc k + 4) = postDataMagic"
      by blast
    then have "e + 12 * Suc k + 4 \<le> length d"
      by (rule magic_in_buffer)
    then show "length (pyslice d (e + 12 * k) (e + 12 * k + 12)) = 12"
      by (simp add: length_pyslice)
  qed
  have n: "\<exists>n. (\<forall>k < n. pyslice d (e + 12 * k) (e + 12 * k + 4) = postDataMagic)
              \<and> pyslice d (e + 12 * n) (e + 12 * n + 4) \<noteq> postDataMagic
              \<and> arm9PostData r =
                  concat (map (\<lambda>k. pyslice d (e + 12 * k) (e + 12 * k + 12)) [0 ..< n])
              \<and> (\<forall>k. Suc k < n \<longrightarrow> length (pyslice d (e + 12 * k) (e + 12 * k + 12)) = 12)
              \<and> (e + 12 * n \<le> length d \<longrightarrow> length (arm9PostData r) = 12 * n)"
    unfolding p using a b c f l by (intro exI [of _ n] conjI)
  have two: "d = pre @ r1 @ r2 @ rest \<and> length pre = e
            \<and> length r1 = 12 \<and> take 4 r1 = postDataMagic
            \<and> length r2 = 12 \<and> take 4 r2 = postDataMagic
            \<and> take 4 rest \<noteq> postDataMagic
            \<longrightarrow> arm9PostData r = r1 @ r2"
  proof (intro impI, elim conjE)
    assume d: "d = pre @ r1 @ r2 @ rest" and e: "length pre = e"
      and "length r1 = 12" "take 4 r1 = postDataMagic"
      and "length r2 = 12" "take 4 r2 = postDataMagic"
      and "take 4 rest \<noteq> postDataMagic"
    then have "scanPostData (pre @ r1 @ r2 @ rest) (length pre) [] = r1 @ r2"
      by (intro scanPostData_two_records)
    then show "arm9PostData r = r1 @ r2"
      unfolding p d e .
  qed
  have z: "length d \<le> e \<longrightarrow> arm9PostData r = []"
    unfolding p by (intro impI scanPostData_at_end)
  show ?thesis
    by (rule conjI [OF h conjI [OF n conjI [OF two z]]])
qed

text \<open>
  Two records after an ARM9 region that ends at \<open>0x200\<close>, then one byte \<open>0xFF\<close>.
\<close>

theorem post_data_scan_witness:
  "initFromData 1 twoRecordRom = Inr (decodedRom twoRecordRom (Folder [] [] 0))
   \<and> field32 twoRecordRom 0x20 + field32 twoRecordRom 0x2C = 0x200
   \<and> arm9PostData (decodedRom twoRecordRom (Folder [] [] 0))
       = ([0x21, 0x06, 0xC0, 0xDE] @ replicate 8 1) @ ([0x21, 0x06, 0xC0, 0xDE] @ replicate 8 2)"
proof -
  have len: "0x200 \<le> length twoRecordRom"
    by (simp add: twoRecordRom_def)
  then have pad: "padded twoRecordRom = twoRecordRom"
    by (rule padded_long)
  have fnt: "fntRegion (padded twoRecordRom) = []"
    unfolding pad by (simp add: fntRegion_def twoRecordRom_def pyslice_def field32_def le_nat_zeros)
  have ok: "initFromData 1 twoRecordRom = Inr (decodedRom twoRecordRom (Folder [] [] 0))"
    using initFromData_no_fnt [OF fnt, of 1] unfolding pad .
  have e: "field32 twoRecordRom 0x20 + field32 twoRecordRom 0x2C = 0x200"
    by (simp add: twoRecordRom_def pyslice_def field32_def le_nat_zeros)
  note t = post_data_scan [OF ok pad [symmetric] e [symmetric],
      of "replicate 0x20 0 @ [0x00, 0x02, 0x00, 0x00] @ replicate 0x1DC 0"
         "[0x21, 0x06, 0xC0, 0xDE] @ replicate 8 1"
         "[0x21, 0x06, 0xC0, 0xDE] @ replicate 8 2"
         "[0xFF]",
      THEN conjunct2, THEN conjunct2, THEN conjunct1]
  have hyp: "twoRecordRom =
        (replicate 0x20 0 @ [0x00, 0x02, 0x00, 0x00] @ replicate 0x1DC 0)
        @ ([0x21, 0x06, 0xC0, 0xDE] @ replicate 8 1)
        @ ([0x21, 0x06, 0xC0, 0xDE] @ replicate 8 2) @ [0xFF]
      \<and> length (replicate 0x20 0 @ [0x00, 0x02, 0x00, 0x00] @ replicate 0x1DC (0::byte)) = 0x200
      \<and> length ([0x21, 0x06, 0xC0, 0xDE] @ replicate 8 (1::byte)) = 12
      \<and> take 4 ([0x21, 0x06, 0xC0, 0xDE] @ replicate 8 (1::byte)) = postDataMagic
      \<and> length ([0x21, 0x06, 0xC0, 0xDE] @ replicate 8 (2::byte)) = 12
      \<and> take 4 ([0x21, 0x06, 0xC0, 0xDE] @ replicate 8 (2::byte)) = postDataMagic
      \<and> take 4 [0xFF :: byte] \<noteq> postDataMagic"
    by (simp add: twoRecordRom_def postDataMagic_def)
  from t hyp have p: "arm9PostData (decodedRom twoRecordRom (Folder [] [] 0))
       = ([0x21, 0x06, 0xC0, 0xDE] @ replicate 8 1) @ ([0x21, 0x06, 0xC0, 0xDE] @ replicate 8 2)"
    by (rule mp)
  show ?thesis
    by (rule conjI [OF ok conjI [OF e p]])
qed

text \<open>
  The magic at \<open>0x200\<close> with three more bytes before the end of the buffer: the magic is
  at the current position, and the record that the scan collects has 7 bytes, not 12.
\<close>

theorem post_data_scan_cut_record:
  "initFromData 1 cutRecordRom = Inr (decodedRom cutRecordRom (Folder [] [] 0))
   \<and> field32 cutRecordRom 0x20 + field32 cutRecordRom 0x2C = 0x200
   \<and> pyslice cutRecordRom 0x200 0x204 = postDataMagic
   \<and> arm9PostData (decodedRom cutRecordRom (Folder [] [] 0)) = [0x21, 0x06, 0xC0, 0xDE, 1, 2, 3]
   \<and> length (arm9PostData (decodedRom cutRecordRom (Folder [] [] 0))) = 7"
proof -
  have len: "0x200 \<le> length cutRecordRom"
    by (simp add: cutRecordRom_def)
  then have pad: "padded cutRecordRom = cutRecordRom"
    by (rule padded_long)
  have fnt: "fntRegion (padded cutRecordRom) = []"
    unfolding pad by (simp add: fntRegion_def cutRecordRom_def pyslice_def field32_def le_nat_zeros)
  have ok: "initFromData 1 cutRecordRom = Inr (decodedRom cutRecordRom (Folder [] [] 0))"
    using initFromData_no_fnt [OF fnt, of 1] unfolding pad .
  have e: "field32 cutRecordRom 0x20 + field32 cutRecordRom 0x2C = 0x200"
    by (simp add: cutRecordRom_def pyslice_def field32_def le_nat_zeros)
  have m: "pyslice cutRecordRom 0x200 0x204 = postDataMagic"
    by (simp add: cutRecordRom_def pyslice_def postDataMagic_def)
  have s: "pyslice cutRecordRom 0x200 (0x200 + 12) = [0x21, 0x06, 0xC0, 0xDE, 1, 2, 3]"
    by (simp add: cutRecordRom_def pyslice_def)
  have "length cutRecordRom \<le> 0x200 + 12"
    by (simp add: cutRecordRom_def)
  then have z: "scanPostData cutRecordRom (0x200 + 12) [] = []"
    by (rule scanPostData_at_end)
  have "scanPostData cutRecordRom 0x200 [] = [0x21, 0x06, 0xC0, 0xDE, 1, 2, 3]"
    using m s z by (subst scanPostData_step) simp
  then have p: "arm9PostData (decodedRom cutRecordRom (Folder [] [] 0))
                  = [0x21, 0x06, 0xC0, 0xDE, 1, 2, 3]"
    unfolding decodedRom_sel e .
  then have l: "length (arm9PostData (decodedRom cutRecordRom (Folder [] [] 0))) = 7"
    by simp
  show ?thesis
    by (rule conjI [OF ok conjI [OF e conjI [OF m conjI [OF p l]]]])
qed


subsection \<open>The RSA signature\<close>

lemma decodedRom_romSize: "romSizeOrRsaSigOffset (decodedRom d tree) = field32 d 0x80"
  by (simp add: decodedRom_def HeaderFields.extend_def headerFieldsAt_def)

lemma length_pyslice_window: "length (pyslice d a (min (length d) (a + n))) \<le> n"
  unfolding length_pyslice by arith

text \<open>
  Claim C6 (the RSA signature), as amended. For a buffer that decodes, with \<open>d\<close> the
  buffer after padding: the offset of the signature is the word at \<open>0x1000\<close> when the
  buffer has at least \<open>0x1004\<close> bytes and that word is not zero; otherwise it is the
  header field at \<open>0x80\<close>, when that field is not zero and the buffer extends past it;
  otherwise the signature is empty. With an offset, the signature is the slice of \<open>d\<close>
  from the offset, of \<open>0x88\<close> bytes or to the end of the buffer. The header field itself
  is kept as read.
\<close>

theorem rsa_signature:
  assumes "initFromData depth data0 = Inr r" and "d = padded data0"
  shows "(\<exists>h l. readHeader d 0 = Inr ((h, l), 0x200)
            \<and> romSizeOrRsaSigOffset h = field32 d 0x80)
       \<and> romSizeOrRsaSigOffset r = field32 d 0x80
       \<and> rsaSignature r =
           (if 0x1004 \<le> length d \<and> field32 d 0x1000 \<noteq> 0
            then pyslice d (field32 d 0x1000) (min (length d) (field32 d 0x1000 + 0x88))
            else if field32 d 0x80 < length d \<and> field32 d 0x80 \<noteq> 0
            then pyslice d (field32 d 0x80) (min (length d) (field32 d 0x80 + 0x88))
            else [])
       \<and> length (rsaSignature r) \<le> 0x88"
proof -
  from initFromData_InrD [OF assms(1)] obtain tree where r: "r = decodedRom d tree"
    unfolding assms(2) ..
  have "0x200 \<le> length d"
    unfolding assms(2) by (rule padded_ge)
  from header_offsets [OF this]
  have h: "\<exists>h l. readHeader d 0 = Inr ((h, l), 0x200)
            \<and> romSizeOrRsaSigOffset h = field32 d 0x80"
    by auto
  have f: "romSizeOrRsaSigOffset r = field32 d 0x80"
    unfolding r by (rule decodedRom_romSize)
  have s: "rsaSignature r =
           (if 0x1004 \<le> length d \<and> field32 d 0x1000 \<noteq> 0
            then pyslice d (field32 d 0x1000) (min (length d) (field32 d 0x1000 + 0x88))
            else if field32 d 0x80 < length d \<and> field32 d 0x80 \<noteq> 0
            then pyslice d (field32 d 0x80) (min (length d) (field32 d 0x80 + 0x88))
            else [])"
    unfolding r by (simp add: decodedRom_sel sigOffset_def)
  have l: "length (rsaSignature r) \<le> 0x88"
    unfolding s by (simp add: length_pyslice_window)
  show ?thesis
    by (rule conjI [OF h conjI [OF f conjI [OF s l]]])
qed

text \<open>
  A buffer with the header field \<open>0x10\<close> and no word at \<open>0x1000\<close>, and a buffer of
  \<open>0x1004\<close> bytes with the word \<open>0x20\<close> at \<open>0x1000\<close>.
\<close>

theorem rsa_signature_witness:
  "initFromData 1 (replicate 0x80 0 @ [0x10])
     = Inr (decodedRom (padded (replicate 0x80 0 @ [0x10])) (Folder [] [] 0))
   \<and> rsaSignature (decodedRom (padded (replicate 0x80 0 @ [0x10])) (Folder [] [] 0))
       = replicate 0x70 0 @ [0x10] @ replicate 0x17 0
   \<and> initFromData 1 (replicate 0x1000 0 @ [0x20, 0, 0, 0])
     = Inr (decodedRom (replicate 0x1000 0 @ [0x20, 0, 0, 0]) (Folder [] [] 0))
   \<and> rsaSignature (decodedRom (replicate 0x1000 0 @ [0x20, 0, 0, 0]) (Folder [] [] 0))
       = replicate 0x88 0"
proof -
  let ?c = "replicate 0x80 0 @ [0x10] :: bytes"
  let ?r = "decodedRom (padded ?c) (Folder [] [] 0)"
  have ok: "initFromData 1 ?c = Inr ?r"
    by (rule initFromData_no_fnt) (simp add: fntRegion_def buffer_eval)
  have len: "length (padded ?c) = 0x200"
    by (simp add: padded_def)
  have f80: "field32 (padded ?c) 0x80 = 0x10"
    by (simp add: buffer_eval)
  have sl: "pyslice (padded ?c) 0x10 (min 0x200 (0x10 + 0x88)) = replicate 0x70 0 @ [0x10] @ replicate 0x17 0"
    by (simp add: padded_def pyslice_def)
  from rsa_signature [OF ok refl, THEN conjunct2, THEN conjunct2, THEN conjunct1]
  have a: "rsaSignature ?r = replicate 0x70 0 @ [0x10] @ replicate 0x17 0"
    unfolding len f80 sl by simp
  let ?c2 = "replicate 0x1000 0 @ [0x20, 0, 0, 0] :: bytes"
  have pad2: "padded ?c2 = ?c2"
    by (rule padded_long) simp
  have fnt2: "fntRegion (padded ?c2) = []"
    unfolding pad2 by (simp add: fntRegion_def pyslice_def field32_def le_nat_zeros)
  have ok2: "initFromData 1 ?c2 = Inr (decodedRom ?c2 (Folder [] [] 0))"
    using initFromData_no_fnt [OF fnt2, of 1] unfolding pad2 .
  have len2: "length ?c2 = 0x1004"
    by simp
  have p2: "field32 ?c2 0x1000 = 0x20"
    by (simp add: pyslice_def field32_def)
  have sl2: "pyslice ?c2 0x20 (min 0x1004 (0x20 + 0x88)) = replicate 0x88 0"
    by (simp add: pyslice_def)
  from rsa_signature [OF ok2 pad2 [symmetric], THEN conjunct2, THEN conjunct2, THEN conjunct1]
  have b: "rsaSignature (decodedRom ?c2 (Folder [] [] 0)) = replicate 0x88 0"
    unfolding len2 p2 sl2 by simp
  show ?thesis
    by (rule conjI [OF ok conjI [OF a conjI [OF ok2 b]]])
qed

text \<open>
  A buffer of \<open>0x200\<close> zero bytes: there is no word at \<open>0x1000\<close>, the header field is
  0 and the buffer extends past offset 0, so by the wording of the specification the
  signature would be the \<open>0x88\<close> bytes at offset 0. The decoder leaves it empty: a
  resolved offset of zero counts as no offset.
\<close>

theorem rsa_signature_zero_field:
  "initFromData 1 (replicate 0x200 0)
     = Inr (decodedRom (replicate 0x200 0) (Folder [] [] 0))
   \<and> length (replicate 0x200 (0::byte)) < 0x1004
   \<and> field32 (replicate 0x200 0) 0x80 < length (replicate 0x200 (0::byte))
   \<and> rsaSignature (decodedRom (replicate 0x200 0) (Folder [] [] 0)) = []
   \<and> rsaSignature_as_claimed (replicate 0x200 0) = replicate 0x88 0
   \<and> rsaSignature (decodedRom (replicate 0x200 0) (Folder [] [] 0))
       \<noteq> rsaSignature_as_claimed (replicate 0x200 0)"
proof -
  let ?c = "replicate 0x200 0 :: bytes"
  have pad: "padded ?c = ?c"
    by (rule padded_long) simp
  have fnt: "fntRegion (padded ?c) = []"
    unfolding pad by (simp add: fntRegion_def pyslice_def field32_def le_nat_zeros)
  have ok: "initFromData 1 ?c = Inr (decodedRom ?c (Folder [] [] 0))"
    using initFromData_no_fnt [OF fnt, of 1] unfolding pad .
  have l: "length ?c < 0x1004"
    by simp
  have f: "field32 ?c 0x80 < length ?c"
    by (simp add: pyslice_def field32_def le_nat_zeros)
  have s: "rsaSignature (decodedRom ?c (Folder [] [] 0)) = []"
    by (simp add: decodedRom_sel sigOffset_def pyslice_def field32_def le_nat_zeros)
  have c: "rsaSignature_as_claimed ?c = replicate 0x88 0"
    by (simp add: rsaSignature_as_claimed_def pyslice_def field32_def le_nat_zeros)
  have n: "rsaSignature (decodedRom ?c (Folder [] [] 0)) \<noteq> rsaSignature_as_claimed ?c"
    unfolding s c by simp
  show ?thesis
    by (rule conjI [OF ok conjI [OF l conjI [OF f conjI [OF s conjI [OF c n]]]]])
qed


subsection \<open>Files and their order\<close>

lemma fatSortedIds_distinct_starts:
  assumes "distinct (map (\<lambda>i. field32 fat (8 * i)) [0 ..< length fat div 8])"
  shows "set (fatSortedIds fat) = {..< length fat div 8}"
proof -
  have inj: "inj_on (\<lambda>i. field32 fat (8 * i)) {0 ..< length fat div 8}"
    using assms by (simp add: distinct_map)
  show ?thesis
    unfolding set_fatSortedIds
  proof (intro set_eqI iffI)
    fix i
    assume "i \<in> {i. i < length fat div 8
         \<and> (\<forall>j < length fat div 8. field32 fat (8 * j) = field32 fat (8 * i) \<longrightarrow> j \<le> i)}"
    then show "i \<in> {..< length fat div 8}" by simp
  next
    fix i
    assume "i \<in> {..< length fat div 8}"
    then have i: "i < length fat div 8" by simp
    have "\<forall>j < length fat div 8. field32 fat (8 * j) = field32 fat (8 * i) \<longrightarrow> j \<le> i"
    proof (intro allI impI)
      fix j
      assume "j < length fat div 8" and "field32 fat (8 * j) = field32 fat (8 * i)"
      with inj i have "j = i"
        by (auto dest: inj_onD)
      then show "j \<le> i" by simp
    qed
    with i show "i \<in> {i. i < length fat div 8
         \<and> (\<forall>j < length fat div 8. field32 fat (8 * j) = field32 fat (8 * i) \<longrightarrow> j \<le> i)}"
      by simp
  qed
qed

lemma fatSortedIds_distinct: "distinct (fatSortedIds fat)"
proof -
  have "distinct (map (\<lambda>i. field32 fat (8 * i)) (fatSortedIds fat))"
    using fatSortedIds_strict [of fat] by (simp add: strict_sorted_iff)
  then show ?thesis
    by (simp add: distinct_map)
qed

lemma fatSortedIds_distinct_length:
  assumes "distinct (map (\<lambda>i. field32 fat (8 * i)) [0 ..< length fat div 8])"
  shows "length (fatSortedIds fat) = length fat div 8"
proof -
  have "length (fatSortedIds fat) = card (set (fatSortedIds fat))"
    using fatSortedIds_distinct by (simp add: distinct_card)
  also have "\<dots> = length fat div 8"
    unfolding fatSortedIds_distinct_starts [OF assms] by simp
  finally show ?thesis .
qed

text \<open>
  Claim C8 (the file allocation table), as amended. For a buffer that decodes, with \<open>d\<close>
  the buffer after padding, \<open>fat\<close> the region that the header declares and \<open>n\<close> the
  number of its 8-byte records: there are \<open>n\<close> files, and the file \<open>i\<close> is the slice of
  \<open>d\<close> between the two words of the record \<open>i\<close>. \<^verbatim>\<open>sortedFileIds\<close> is in strictly
  ascending order of start offset, and holds for every start offset the last ID that has
  it: an ID is left out when a later record has the same start offset. When the start
  offsets are distinct it holds every ID once; for the start offsets 100, 50, 200 it is
  \<open>[1, 0, 2]\<close>.
\<close>

theorem fat_decode:
  assumes "initFromData depth data0 = Inr r" and "d = padded data0"
    and "fat = fatRegion d" and "n = length fat div 8"
  shows "(\<exists>h l. readHeader d 0 = Inr ((h, l), 0x200)
            \<and> fatOffset l = field32 d 0x48 \<and> fatLen l = field32 d 0x4C)
       \<and> fat = pyslice d (field32 d 0x48) (field32 d 0x48 + field32 d 0x4C)
       \<and> length (rom_files r) = n
       \<and> (\<forall>i < n. rom_files r ! i = pyslice d (field32 fat (8 * i)) (field32 fat (8 * i + 4)))
       \<and> sorted_wrt (<) (map (\<lambda>i. field32 fat (8 * i)) (sortedFileIds r))
       \<and> set (sortedFileIds r) =
           {i. i < n \<and> (\<forall>j < n. field32 fat (8 * j) = field32 fat (8 * i) \<longrightarrow> j \<le> i)}
       \<and> (distinct (map (\<lambda>i. field32 fat (8 * i)) [0 ..< n]) \<longrightarrow>
             set (sortedFileIds r) = {..< n} \<and> length (sortedFileIds r) = n)
       \<and> (map (\<lambda>i. field32 fat (8 * i)) [0 ..< n] = [100, 50, 200] \<longrightarrow>
             sortedFileIds r = [1, 0, 2])"
proof -
  from initFromData_InrD [OF assms(1)] obtain tree where r: "r = decodedRom d tree"
    unfolding assms(2) ..
  have "0x200 \<le> length d"
    unfolding assms(2) by (rule padded_ge)
  from header_offsets [OF this]
  have h: "\<exists>h l. readHeader d 0 = Inr ((h, l), 0x200)
            \<and> fatOffset l = field32 d 0x48 \<and> fatLen l = field32 d 0x4C"
    by blast
  have f: "fat = pyslice d (field32 d 0x48) (field32 d 0x48 + field32 d 0x4C)"
    unfolding assms(3) by (rule fatRegion_def)
  have files: "rom_files r = fatFiles d fat"
    unfolding r assms(3) by (simp add: decodedRom_sel)
  have ids: "sortedFileIds r = fatSortedIds fat"
    unfolding r assms(3) by (simp add: decodedRom_sel)
  have a: "length (rom_files r) = n"
    unfolding files assms(4) by (rule length_fatFiles)
  have b: "\<forall>i < n. rom_files r ! i = pyslice d (field32 fat (8 * i)) (field32 fat (8 * i + 4))"
    unfolding files assms(4) by (simp add: nth_fatFiles)
  have c: "sorted_wrt (<) (map (\<lambda>i. field32 fat (8 * i)) (sortedFileIds r))"
    unfolding ids by (rule fatSortedIds_strict)
  have s: "set (sortedFileIds r) =
           {i. i < n \<and> (\<forall>j < n. field32 fat (8 * j) = field32 fat (8 * i) \<longrightarrow> j \<le> i)}"
    unfolding ids assms(4) by (rule set_fatSortedIds)
  have t: "distinct (map (\<lambda>i. field32 fat (8 * i)) [0 ..< n]) \<longrightarrow>
             set (sortedFileIds r) = {..< n} \<and> length (sortedFileIds r) = n"
    unfolding ids assms(4)
    using fatSortedIds_distinct_starts [of fat] fatSortedIds_distinct_length [of fat]
    by (intro impI conjI)
  have e: "map (\<lambda>i. field32 fat (8 * i)) [0 ..< n] = [100, 50, 200] \<longrightarrow>
             sortedFileIds r = [1, 0, 2]"
    unfolding ids assms(4) using fatSortedIds_example [of fat] by (intro impI)
  show ?thesis
    by (rule conjI [OF h conjI [OF f conjI [OF a conjI [OF b conjI [OF c conjI [OF s conjI [OF t e]]]]]]])
qed

lemma threeFileRom_fat:
  "fatRegion (padded threeFileRom)
     = [100, 0, 0, 0, 110, 0, 0, 0, 50, 0, 0, 0, 60, 0, 0, 0, 200, 0, 0, 0, 210, 0, 0, 0]"
  by (simp add: fatRegion_def threeFileRom_def buffer_eval)

text \<open>
  A table of three records at \<open>0x200\<close>, with the start offsets 100, 50 and 200.
\<close>

theorem fat_decode_witness:
  "initFromData 1 threeFileRom = Inr (decodedRom (padded threeFileRom) (Folder [] [] 0))
   \<and> length (rom_files (decodedRom (padded threeFileRom) (Folder [] [] 0))) = 3
   \<and> sortedFileIds (decodedRom (padded threeFileRom) (Folder [] [] 0)) = [1, 0, 2]"
proof -
  let ?r = "decodedRom (padded threeFileRom) (Folder [] [] 0)"
  let ?fat = "[100, 0, 0, 0, 110, 0, 0, 0, 50, 0, 0, 0, 60, 0, 0, 0, 200, 0, 0, 0, 210, 0, 0, 0] :: bytes"
  have ok: "initFromData 1 threeFileRom = Inr ?r"
    by (rule initFromData_no_fnt) (simp add: fntRegion_def threeFileRom_def buffer_eval)
  have n: "(3::nat) = length ?fat div 8"
    by simp
  have starts: "map (\<lambda>i. field32 ?fat (8 * i)) [0 ..< 3] = [100, 50, 200]"
    by (simp add: upt_rec field32_def pyslice_def)
  note t = fat_decode [OF ok refl threeFileRom_fat [symmetric] n]
  from t [THEN conjunct2, THEN conjunct2, THEN conjunct1]
  have a: "length (rom_files ?r) = 3" .
  from t [THEN conjunct2, THEN conjunct2, THEN conjunct2, THEN conjunct2, THEN conjunct2,
      THEN conjunct2, THEN conjunct2, THEN mp, OF starts]
  have b: "sortedFileIds ?r = [1, 0, 2]" .
  show ?thesis
    by (rule conjI [OF ok conjI [OF a b]])
qed

text \<open>
  A table of two records that both start at offset 0: there are two files, and
  \<^verbatim>\<open>sortedFileIds\<close> holds the ID 1 only.
\<close>

theorem fat_decode_shared_start:
  "initFromData 1 sharedStartRom = Inr (decodedRom (padded sharedStartRom) (Folder [] [] 0))
   \<and> fatRegion (padded sharedStartRom) = replicate 16 0
   \<and> rom_files (decodedRom (padded sharedStartRom) (Folder [] [] 0)) = [[], []]
   \<and> sortedFileIds (decodedRom (padded sharedStartRom) (Folder [] [] 0)) = [1]"
proof -
  let ?r = "decodedRom (padded sharedStartRom) (Folder [] [] 0)"
  have ok: "initFromData 1 sharedStartRom = Inr ?r"
    by (rule initFromData_no_fnt) (simp add: fntRegion_def sharedStartRom_def buffer_eval)
  have fat: "fatRegion (padded sharedStartRom) = replicate 16 0"
    by (simp add: fatRegion_def sharedStartRom_def buffer_eval)
  have u: "[0 ..< 2] = [0, Suc 0]"
    by (simp add: upt_rec)
  have z: "\<And>k. field32 (replicate 16 0) k = 0"
    by (simp add: field32_def pyslice_def le_nat_zeros)
  have f: "rom_files ?r = [[], []]"
    unfolding decodedRom_sel fat by (simp add: fatFiles_def u z pyslice_def)
  have s: "sortedFileIds ?r = [1]"
    unfolding decodedRom_sel fat by (simp add: fatSortedIds_def offset2IdOf_def u z)
  show ?thesis
    by (rule conjI [OF ok conjI [OF fat conjI [OF f s]]])
qed


subsection \<open>Buffers shorter than the header\<close>

lemma padded_slice:
  assumes "length data0 \<le> a" and "a \<le> b" and "b \<le> 0x200"
  shows "pyslice (padded data0) a b = replicate (b - a) 0"
  using assms by (simp add: pyslice_def padded_def min_def)

lemma padded_field8:
  assumes "length data0 \<le> off" and "off < 0x200"
  shows "field8 (padded data0) off = 0"
  using assms by (simp add: field8_def padded_def nth_append)

lemma padded_field16:
  assumes "length data0 \<le> off" and "off + 2 \<le> 0x200"
  shows "field16 (padded data0) off = 0"
  unfolding field16_def using assms by (simp add: padded_slice le_nat_zeros)

lemma padded_field32:
  assumes "length data0 \<le> off" and "off + 4 \<le> 0x200"
  shows "field32 (padded data0) off = 0"
  unfolding field32_def using assms by (simp add: padded_slice le_nat_zeros)

lemma rstrip_zero_zeros: "rstrip_zero (replicate n 0) = []"
  by (simp add: rstrip_zero_def)

lemma header_beyond_zero:
  "fieldsBeyondZero (length data0) (headerFieldsAt (padded data0)) (headerLocalsAt (padded data0))"
  unfolding fieldsBeyondZero_def headerFieldsAt_def headerLocalsAt_def
  by (intro conjI impI)
     (simp_all add: padded_slice padded_field8 padded_field16 padded_field32 rstrip_zero_zeros)

lemma load_short:
  assumes "0 < depth" and "length fnt < 6"
  shows "load depth fnt = Inl StructError"
proof -
  from assms(1) obtain n where n: "depth = Suc n"
    by (cases depth) simp_all
  show ?thesis
    unfolding load_def n using assms(2) by (simp add: unpack_IH_def)
qed

text \<open>
  Claim C5 (buffers shorter than the header), as amended. A buffer \<open>data0\<close> of fewer than
  \<open>0x200\<close> bytes is extended with zero bytes to exactly \<open>0x200\<close> bytes before any field is
  read. The header is then read without an exception, and every field that starts at or
  after the end of \<open>data0\<close> reads as zero. Decoding fails in one case only: the filename
  table that the header declares is not empty and \<^verbatim>\<open>load\<close> raises on it, and then
  decoding raises the same exception. It does not fail for a buffer of at most \<open>0x44\<close>
  bytes, whose filename table has length zero.
\<close>

theorem short_buffer_decode:
  assumes "length data0 < 0x200" and "d = padded data0"
  shows "extendData data0 = Inr d
       \<and> d = data0 @ replicate (0x200 - length data0) 0
       \<and> length d = 0x200
       \<and> (\<exists>h l. readHeader d 0 = Inr ((h, l), 0x200) \<and> fieldsBeyondZero (length data0) h l)
       \<and> initFromData depth data0 =
           (if fntRegion d = [] then Inr (decodedRom d (Folder [] [] 0))
            else case load depth (fntRegion d) of
                   Inl e \<Rightarrow> Inl e
                 | Inr tree \<Rightarrow> Inr (decodedRom d tree))
       \<and> (length data0 \<le> 0x44 \<longrightarrow>
            initFromData depth data0 = Inr (decodedRom d (Folder [] [] 0)))"
proof -
  have a: "extendData data0 = Inr d"
    unfolding assms(2) by (rule extendData_eq)
  have b: "d = data0 @ replicate (0x200 - length data0) 0"
    unfolding assms(2) by (rule padded_def)
  have c: "length d = 0x200"
    unfolding b using assms(1) by simp
  have "0x200 \<le> length d"
    unfolding c by simp
  from readHeader_eq [OF this]
  have rd: "readHeader d 0 = Inr ((headerFieldsAt d, headerLocalsAt d), 0x200)" .
  have z: "fieldsBeyondZero (length data0) (headerFieldsAt d) (headerLocalsAt d)"
    unfolding assms(2) by (rule header_beyond_zero)
  have e: "\<exists>h l. readHeader d 0 = Inr ((h, l), 0x200) \<and> fieldsBeyondZero (length data0) h l"
    by (rule exI [of _ "headerFieldsAt d"], rule exI [of _ "headerLocalsAt d"])
       (rule conjI [OF rd z])
  have f: "initFromData depth data0 =
           (if fntRegion d = [] then Inr (decodedRom d (Folder [] [] 0))
            else case load depth (fntRegion d) of
                   Inl e \<Rightarrow> Inl e
                 | Inr tree \<Rightarrow> Inr (decodedRom d tree))"
    unfolding assms(2) initFromData_eq by simp
  have g: "length data0 \<le> 0x44 \<longrightarrow>
            initFromData depth data0 = Inr (decodedRom d (Folder [] [] 0))"
  proof
    assume "length data0 \<le> 0x44"
    then have "field32 (padded data0) 0x44 = 0"
      by (simp add: padded_field32)
    then have "fntRegion d = []"
      unfolding assms(2) by (simp add: fntRegion_def pyslice_def)
    then show "initFromData depth data0 = Inr (decodedRom d (Folder [] [] 0))"
      unfolding f by simp
  qed
  show ?thesis
    by (rule conjI [OF a conjI [OF b conjI [OF c conjI [OF e conjI [OF f g]]]]])
qed

text \<open>
  A buffer of \<open>0x21\<close> bytes, the last of which is the low byte of the ARM9 offset.
\<close>

theorem short_buffer_decode_witness:
  "initFromData 1000 ((replicate 0x20 0 @ [0x10]))
     = Inr (decodedRom (padded ((replicate 0x20 0 @ [0x10]))) (Folder [] [] 0))
   \<and> length (padded ((replicate 0x20 0 @ [0x10]))) = 0x200
   \<and> (\<exists>h l. readHeader (padded ((replicate 0x20 0 @ [0x10]))) 0 = Inr ((h, l), 0x200)
         \<and> arm9Offset h = 0x10 \<and> fntOffset l = 0 \<and> fntLen l = 0
         \<and> romSizeOrRsaSigOffset h = 0 \<and> nintendoLogo h = replicate 0x9C 0)"
proof -
  let ?c = "replicate 0x20 0 @ [0x10] :: bytes"
  have len: "length ?c < 0x200"
    by simp
  note t = short_buffer_decode [OF len refl, of 1000]
  from t [THEN conjunct2, THEN conjunct2, THEN conjunct2, THEN conjunct2, THEN conjunct2]
  have a: "initFromData 1000 ?c = Inr (decodedRom (padded ?c) (Folder [] [] 0))"
    by simp
  from t [THEN conjunct2, THEN conjunct2, THEN conjunct1]
  have b: "length (padded ?c) = 0x200" .
  from t [THEN conjunct2, THEN conjunct2, THEN conjunct2, THEN conjunct1]
  obtain h l where rd: "readHeader (padded ?c) 0 = Inr ((h, l), 0x200)"
      and z: "fieldsBeyondZero (length ?c) h l"
    by (elim exE conjE)
  from rd have h: "h = headerFieldsAt (padded ?c)" and l: "l = headerLocalsAt (padded ?c)"
    unfolding readHeader_eq [OF padded_ge] by simp_all
  have f: "arm9Offset h = 0x10"
    unfolding h headerFieldsAt_sel by (simp add: buffer_eval)
  from z have "fntOffset l = 0 \<and> fntLen l = 0 \<and> romSizeOrRsaSigOffset h = 0
      \<and> nintendoLogo h = replicate 0x9C 0"
    unfolding fieldsBeyondZero_def by simp
  with rd f have "readHeader (padded ?c) 0 = Inr ((h, l), 0x200)
         \<and> arm9Offset h = 0x10 \<and> fntOffset l = 0 \<and> fntLen l = 0
         \<and> romSizeOrRsaSigOffset h = 0 \<and> nintendoLogo h = replicate 0x9C 0"
    by (intro conjI) (elim conjE, assumption)+
  then have c: "\<exists>h l. readHeader (padded ?c) 0 = Inr ((h, l), 0x200)
         \<and> arm9Offset h = 0x10 \<and> fntOffset l = 0 \<and> fntLen l = 0
         \<and> romSizeOrRsaSigOffset h = 0 \<and> nintendoLogo h = replicate 0x9C 0"
    by (intro exI)
  show ?thesis
    by (rule conjI [OF a conjI [OF b c]])
qed

text \<open>
  A buffer of \<open>0x100\<close> bytes that declares a filename table of one byte at offset 0:
  \<^verbatim>\<open>load\<close> reads six bytes of it and raises \<^verbatim>\<open>struct.error\<close>, and so does decoding.
\<close>

theorem short_buffer_decode_fails:
  "length truncatedRom = 0x100
   \<and> fntRegion (padded truncatedRom) = [0]
   \<and> load 1000 [0] = Inl StructError
   \<and> initFromData 1000 truncatedRom = Inl StructError"
proof -
  have a: "length truncatedRom = 0x100"
    by (simp add: truncatedRom_def)
  have b: "fntRegion (padded truncatedRom) = [0]"
    by (simp add: fntRegion_def truncatedRom_def buffer_eval)
  have c: "load 1000 [0] = Inl StructError"
    by (rule load_short) simp_all
  have d: "initFromData 1000 truncatedRom = Inl StructError"
    unfolding initFromData_eq b c by simp
  show ?thesis
    by (rule conjI [OF a conjI [OF b conjI [OF c d]]])
qed

end
